theory Spec2Isabelle
  imports Complex_Main "HOL-Library.AList"
begin


section \<open>Wire-harness analysis: the graph model\<close>

text \<open>
  The analyser keeps one \<open>networkx.Graph\<close>. Python floats are modelled as the real numbers
  (rounding is not modelled), \<open>float('inf')\<close> and NaN are written out where the code can
  produce them. Every exception the code can raise is a value of \<open>error\<close>.
\<close>

type_synonym node = string

datatype error = KeyError | ValueError | AttributeError | NodeNotFound | NetworkXError | NetworkXNoPath

text \<open>
  Attribute dictionaries: a key that is absent is \<open>None\<close>. The node dictionary holds
  \<open>"type"\<close>, \<open>"position"\<close>, \<open>"parent"\<close> and the annotation \<open>"downstream_junctions"\<close>; the
  edge dictionary holds \<open>"wire_type"\<close>, \<open>"gauge"\<close>, \<open>"length"\<close> and \<open>"signals"\<close>.
\<close>

record node_attrs =
  type_attr :: "string option"
  position_attr :: "(real \<times> real) option"
  parent_attr :: "node option"
  downstream_junctions_attr :: "node list option"

record edge_attrs =
  wire_type :: "string option"
  gauge :: "int option"
  length_attr :: "real option"
  signals :: "string list option"

definition no_node_attrs :: node_attrs where
  "no_node_attrs = \<lparr>type_attr = None, position_attr = None, parent_attr = None, downstream_junctions_attr = None\<rparr>"

definition no_edge_attrs :: edge_attrs where
  "no_edge_attrs = \<lparr>wire_type = None, gauge = None, length_attr = None, signals = None\<rparr>"

text \<open>\<open>dict.update\<close>: the keys of the second dictionary win.\<close>

definition or_else :: "'a option \<Rightarrow> 'a option \<Rightarrow> 'a option" where
  "or_else new old = (case new of None \<Rightarrow> old | Some x \<Rightarrow> Some x)"

definition update_node_attrs :: "node_attrs \<Rightarrow> node_attrs \<Rightarrow> node_attrs" where
  "update_node_attrs old new =
     \<lparr>type_attr = or_else (type_attr new) (type_attr old),
      position_attr = or_else (position_attr new) (position_attr old),
      parent_attr = or_else (parent_attr new) (parent_attr old),
      downstream_junctions_attr = or_else (downstream_junctions_attr new) (downstream_junctions_attr old)\<rparr>"

definition update_edge_attrs :: "edge_attrs \<Rightarrow> edge_attrs \<Rightarrow> edge_attrs" where
  "update_edge_attrs old new =
     \<lparr>wire_type = or_else (wire_type new) (wire_type old),
      gauge = or_else (gauge new) (gauge old),
      length_attr = or_else (length_attr new) (length_attr old),
      signals = or_else (signals new) (signals old)\<rparr>"

text \<open>
  \<open>networkx.Graph\<close>: the insertion-ordered dictionaries \<open>_node\<close> and \<open>_adj\<close>, as
  association lists (\<open>AList.update\<close> keeps the place of a key that is present and appends
  a new one, as a Python dictionary does).
\<close>

record graph =
  g_node :: "(node \<times> node_attrs) list"
  g_adj :: "(node \<times> (node \<times> edge_attrs) list) list"

definition nx_Graph :: graph where
  "nx_Graph = \<lparr>g_node = [], g_adj = []\<rparr>"

definition adj :: "graph \<Rightarrow> node \<Rightarrow> (node \<times> edge_attrs) list" where
  "adj g n = (case map_of (g_adj g) n of None \<Rightarrow> [] | Some nbrs \<Rightarrow> nbrs)"

definition add_node :: "node \<Rightarrow> node_attrs \<Rightarrow> graph \<Rightarrow> graph" where
  "add_node n a g =
     (case map_of (g_node g) n of
        None \<Rightarrow> \<lparr>g_node = g_node g @ [(n, update_node_attrs no_node_attrs a)],
                 g_adj = AList.update n [] (g_adj g)\<rparr>
      | Some old \<Rightarrow> g\<lparr>g_node := AList.update n (update_node_attrs old a) (g_node g)\<rparr>)"

definition add_nodes_from :: "(node \<times> node_attrs) list \<Rightarrow> graph \<Rightarrow> graph" where
  "add_nodes_from ns g = fold (\<lambda>(n, a). add_node n a) ns g"

definition ensure_node :: "node \<Rightarrow> graph \<Rightarrow> graph" where
  "ensure_node n g =
     (if map_of (g_node g) n = None
      then \<lparr>g_node = g_node g @ [(n, no_node_attrs)], g_adj = AList.update n [] (g_adj g)\<rparr>
      else g)"

definition add_edge :: "node \<Rightarrow> node \<Rightarrow> edge_attrs \<Rightarrow> graph \<Rightarrow> graph" where
  "add_edge u v dd g0 =
     (let g = ensure_node v (ensure_node u g0);
          datadict = update_edge_attrs
                       (case map_of (adj g u) v of None \<Rightarrow> no_edge_attrs | Some d \<Rightarrow> d) dd;
          g1 = g\<lparr>g_adj := AList.update u (AList.update v datadict (adj g u)) (g_adj g)\<rparr>
      in g1\<lparr>g_adj := AList.update v (AList.update u datadict (adj g1 v)) (g_adj g1)\<rparr>)"

definition add_edges_from :: "(node \<times> node \<times> edge_attrs) list \<Rightarrow> graph \<Rightarrow> graph" where
  "add_edges_from es g = fold (\<lambda>(u, v, dd). add_edge u v dd) es g"

text \<open>The views the analyser reads.\<close>

definition nodes :: "graph \<Rightarrow> node list" where
  "nodes g = map fst (g_node g)"

definition number_of_nodes :: "graph \<Rightarrow> nat" where
  "number_of_nodes g = length (g_node g)"

definition neighbors :: "graph \<Rightarrow> node \<Rightarrow> node list" where
  "neighbors g n = map fst (adj g n)"

text \<open>
  \<open>G.edges(data=True)\<close> walks the nodes in insertion order and reports each edge from
  the endpoint met first: a neighbour already walked is skipped.
\<close>

fun edges_from :: "node list \<Rightarrow> (node \<times> (node \<times> edge_attrs) list) list
    \<Rightarrow> (node \<times> node \<times> edge_attrs) list" where
  "edges_from seen [] = []"
| "edges_from seen ((n, nbrs) # rest) =
     map (\<lambda>(m, d). (n, m, d)) (filter (\<lambda>(m, d). m \<notin> set seen) nbrs)
     @ edges_from (n # seen) rest"

definition edges_data :: "graph \<Rightarrow> (node \<times> node \<times> edge_attrs) list" where
  "edges_data g = edges_from [] (g_adj g)"

definition edges :: "graph \<Rightarrow> (node \<times> node) list" where
  "edges g = map (\<lambda>(u, v, d). (u, v)) (edges_data g)"

definition number_of_edges :: "graph \<Rightarrow> nat" where
  "number_of_edges g = length (edges_data g)"

definition has_edge :: "graph \<Rightarrow> node \<Rightarrow> node \<Rightarrow> bool" where
  "has_edge g u v = (case map_of (g_adj g) u of None \<Rightarrow> False
                     | Some nbrs \<Rightarrow> map_of nbrs v \<noteq> None)"

text \<open>\<open>G[u][v]\<close> raises \<open>KeyError\<close> when the edge is absent.\<close>

definition get_edge :: "graph \<Rightarrow> node \<Rightarrow> node \<Rightarrow> error + edge_attrs" where
  "get_edge g u v = (case map_of (g_adj g) u of None \<Rightarrow> Inl KeyError
                     | Some nbrs \<Rightarrow> (case map_of nbrs v of None \<Rightarrow> Inl KeyError
                                     | Some d \<Rightarrow> Inr d))"

text \<open>
  The graphs \<open>networkx\<close> can hold: the two dictionaries have the same keys, no key twice,
  and the adjacency is symmetric with one shared attribute dictionary per edge.
\<close>

definition wf_graph :: "graph \<Rightarrow> bool" where
  "wf_graph g \<longleftrightarrow>
     distinct (map fst (g_node g)) \<and> map fst (g_adj g) = map fst (g_node g) \<and>
     (\<forall>(n, nbrs) \<in> set (g_adj g).
        distinct (map fst nbrs) \<and> (\<forall>(m, d) \<in> set nbrs. map_of (adj g m) n = Some d))"


section \<open>Topology queries: the edges downstream of a node\<close>

text \<open>
  \<open>get_downstream_edges\<close> runs the nested function \<open>dfs(current_node, parent)\<close>, which
  mutates the two variables \<open>visited\<close> and \<open>downstream_edges\<close> of the enclosing call. Here
  the pair of them is passed through: \<open>dfs\<close> is the body of the nested function and
  \<open>dfs_for\<close> its \<open>for neighbor in ...\<close> loop over the neighbours still to look at.
\<close>

function (domintros) dfs :: "graph \<Rightarrow> node \<Rightarrow> node option \<Rightarrow> node set \<times> (node \<times> node) list
      \<Rightarrow> node set \<times> (node \<times> node) list"
  and dfs_for :: "graph \<Rightarrow> node \<Rightarrow> node option \<Rightarrow> node list \<Rightarrow> node set \<times> (node \<times> node) list
      \<Rightarrow> node set \<times> (node \<times> node) list" where
  "dfs g current_node parent (visited, downstream_edges) =
     dfs_for g current_node parent (neighbors g current_node)
       (insert current_node visited, downstream_edges)"
| "dfs_for g current_node parent [] st = st"
| "dfs_for g current_node parent (neighbor # rest) (visited, downstream_edges) =
     (if Some neighbor \<noteq> parent \<and> neighbor \<notin> visited
      then dfs_for g current_node parent rest
             (dfs g neighbor (Some current_node)
                (visited, downstream_edges @ [(current_node, neighbor)]))
      else dfs_for g current_node parent rest (visited, downstream_edges))"
  by pat_completeness auto

text \<open>
  Termination: every node the traversal can meet stands in some adjacency dictionary, and
  each call of \<open>dfs\<close> takes one more of them into \<open>visited\<close>.
\<close>

definition adj_universe :: "graph \<Rightarrow> node set" where
  "adj_universe g = set (concat (map (\<lambda>(n, nbrs). map fst nbrs) (g_adj g)))"

lemma finite_adj_universe: "finite (adj_universe g)"
  unfolding adj_universe_def by (rule finite_set)

lemma neighbors_universe: "set (neighbors g n) \<subseteq> adj_universe g"
proof (cases "map_of (g_adj g) n")
  case None
  then show ?thesis by (simp add: neighbors_def adj_def)
next
  case (Some nbrs)
  then have "(n, nbrs) \<in> set (g_adj g)" by (rule map_of_SomeD)
  then have "set (map fst nbrs) \<subseteq> adj_universe g"
    unfolding adj_universe_def by force
  then show ?thesis using Some by (simp add: neighbors_def adj_def)
qed

lemma dfs_visited_grows_partial:
  "dfs_dfs_for_dom (Inl (g, c, p, st)) \<Longrightarrow> fst st \<subseteq> fst (dfs g c p st)"
  "dfs_dfs_for_dom (Inr (g, c, p, ns, st)) \<Longrightarrow> fst st \<subseteq> fst (dfs_for g c p ns st)"
proof (induction g c p st and g c p ns st rule: dfs_dfs_for.pinduct)
  case (1 g current_node parent visited downstream_edges)
  then show ?case by (auto simp: dfs.psimps)
next
  case (2 g current_node parent st)
  then show ?case by (simp add: dfs_for.psimps)
next
  case (3 g current_node parent neighbor rest visited downstream_edges)
  then show ?case by (auto simp: dfs_for.psimps split: if_splits)
qed

termination dfs
proof (relation "inv_image (less_than <*lex*> less_than <*lex*> less_than)
    (\<lambda>x. case x of
        Inl (g, c, p, (vis, out)) \<Rightarrow> (card (adj_universe g - insert c vis), 1::nat, 0::nat)
      | Inr (g, c, p, ns, (vis, out)) \<Rightarrow> (card ((adj_universe g \<union> set ns) - vis), 0, length ns))",
    goal_cases)
  case 1
  then show ?case by (intro wf_inv_image wf_lex_prod wf_less_than)
next
  case (2 g current_node parent visited downstream_edges)
  have "adj_universe g \<union> set (neighbors g current_node) = adj_universe g"
    using neighbors_universe[of g current_node] by auto
  then show ?case by simp
next
  case (3 g current_node parent neighbor rest visited downstream_edges)
  have fin: "finite ((adj_universe g \<union> set (neighbor # rest)) - visited)"
    by (simp add: finite_adj_universe)
  have "adj_universe g - insert neighbor visited
        \<subset> (adj_universe g \<union> set (neighbor # rest)) - visited"
    using 3 by auto
  then have "card (adj_universe g - insert neighbor visited)
             < card ((adj_universe g \<union> set (neighbor # rest)) - visited)"
    using fin by (rule psubset_card_mono[rotated])
  then show ?case by simp
next
  case (4 g current_node parent neighbor rest visited downstream_edges)
  define vis' where "vis' = fst (dfs g neighbor (Some current_node)
      (visited, downstream_edges @ [(current_node, neighbor)]))"
  have sub: "visited \<subseteq> vis'"
    using dfs_visited_grows_partial(1)[OF 4(2)] by (simp add: vis'_def)
  have fin: "finite ((adj_universe g \<union> set (neighbor # rest)) - visited)"
    by (simp add: finite_adj_universe)
  have "(adj_universe g \<union> set rest) - vis'
        \<subseteq> (adj_universe g \<union> set (neighbor # rest)) - visited"
    using sub by auto
  then have "card ((adj_universe g \<union> set rest) - vis')
             \<le> card ((adj_universe g \<union> set (neighbor # rest)) - visited)"
    using fin by (rule card_mono[rotated])
  then show ?case by (auto simp: vis'_def split: prod.splits)
next
  case (5 g current_node parent neighbor rest visited downstream_edges)
  have fin: "finite ((adj_universe g \<union> set (neighbor # rest)) - visited)"
    by (simp add: finite_adj_universe)
  have "(adj_universe g \<union> set rest) - visited
        \<subseteq> (adj_universe g \<union> set (neighbor # rest)) - visited"
    by auto
  then have "card ((adj_universe g \<union> set rest) - visited)
             \<le> card ((adj_universe g \<union> set (neighbor # rest)) - visited)"
    using fin by (rule card_mono[rotated])
  then show ?case by auto
qed

text \<open>
  \<open>G.neighbors(n)\<close> raises \<open>NetworkXError\<close> for a node that is not in the graph. Inside
  the traversal every current node but the root was read out of an adjacency dictionary,
  so only the root can be absent.
\<close>

definition dfs_edges :: "graph \<Rightarrow> node \<Rightarrow> (node \<times> node) list" where
  "dfs_edges g node = snd (dfs g node None ({}, []))"

definition get_downstream_edges :: "graph \<Rightarrow> node \<Rightarrow> error + (node \<times> node) list" where
  "get_downstream_edges g node =
     (if map_of (g_adj g) node = None then Inl NetworkXError else Inr (dfs_edges g node))"

declare dfs.simps [simp del]

definition nbr_rel :: "graph \<Rightarrow> (node \<times> node) set" where
  "nbr_rel g = {(u, v). v \<in> set (neighbors g u)}"

definition reachable :: "graph \<Rightarrow> node \<Rightarrow> node set" where
  "reachable g rt = (nbr_rel g)\<^sup>* `` {rt}"

fun discovery_order :: "node set \<Rightarrow> (node \<times> node) list \<Rightarrow> bool" where
  "discovery_order seen [] = True"
| "discovery_order seen ((a, b) # es) = (a \<in> seen \<and> b \<notin> seen \<and> discovery_order (insert b seen) es)"

section \<open>Total length and bundle diameters\<close>

text \<open>
  \<open>calculate_total_length\<close> (the same in both files) reads \<open>data["length"]\<close> of every edge:
  an edge without the key raises \<open>KeyError\<close>.
\<close>

fun edge_lengths :: "(node \<times> node \<times> edge_attrs) list \<Rightarrow> error + real list" where
  "edge_lengths [] = Inr []"
| "edge_lengths ((u, v, d) # es) =
     (case length_attr d of
        None \<Rightarrow> Inl KeyError
      | Some l \<Rightarrow> (case edge_lengths es of Inl e \<Rightarrow> Inl e | Inr ls \<Rightarrow> Inr (l # ls)))"

definition calculate_total_length :: "graph \<Rightarrow> error + real" where
  "calculate_total_length g =
     (case edge_lengths (edges_data g) of Inl e \<Rightarrow> Inl e | Inr ls \<Rightarrow> Inr (sum_list ls))"

text \<open>The table \<open>gauge_to_diameter\<close> (AWG to mm) and \<open>gauge_to_diameter.get(gauge, 0.8)\<close>.\<close>

definition gauge_to_diameter :: "int \<Rightarrow> real option" where
  "gauge_to_diameter gg =
     (if gg = 16 then Some 1.29 else if gg = 18 then Some 1.02 else if gg = 20 then Some 0.81
      else if gg = 22 then Some 0.64 else if gg = 24 then Some 0.51 else None)"

definition wire_diameter_of :: "int \<Rightarrow> real" where
  "wire_diameter_of gg = (case gauge_to_diameter gg of None \<Rightarrow> 0.8 | Some d \<Rightarrow> d)"

text \<open>The two conversions the code writes inline: \<open>(d/2)**2 * np.pi\<close> and
  \<open>2 * np.sqrt(area / np.pi)\<close>.\<close>

definition circle_area :: "real \<Rightarrow> real" where
  "circle_area d = (d / 2)\<^sup>2 * pi"

definition equivalent_diameter :: "real \<Rightarrow> real" where
  "equivalent_diameter a = 2 * sqrt (a / pi)"

subsection \<open>Path mode\<close>

text \<open>\<open>[(path[i], path[i+1]) for i in range(len(path)-1)]\<close>\<close>

definition path_pairs :: "node list \<Rightarrow> (node \<times> node) list" where
  "path_pairs path = zip path (tl path)"

text \<open>
  The loop over the pairs: a pair without an edge is skipped by \<open>has_edge\<close>; for an edge,
  \<open>self.harness_graph[u][v]["gauge"]\<close> raises \<open>KeyError\<close> when the key is absent.
\<close>

fun path_diameters :: "graph \<Rightarrow> (node \<times> node) list \<Rightarrow> error + real list" where
  "path_diameters g [] = Inr []"
| "path_diameters g ((u, v) # es) =
     (if has_edge g u v
      then (case get_edge g u v of
              Inl e \<Rightarrow> Inl e
            | Inr d \<Rightarrow> (case gauge d of
                None \<Rightarrow> Inl KeyError
              | Some gg \<Rightarrow> (case path_diameters g es of
                  Inl e \<Rightarrow> Inl e
                | Inr ds \<Rightarrow> Inr (wire_diameter_of gg # ds))))
      else path_diameters g es)"

definition path_bundle_diameter :: "graph \<Rightarrow> node list \<Rightarrow> error + real" where
  "path_bundle_diameter g path =
     (case path_diameters g (path_pairs path) of
        Inl e \<Rightarrow> Inl e
      | Inr diameters \<Rightarrow>
          (let total_area = sum_list (map circle_area diameters)
           in Inr (equivalent_diameter total_area)))"

subsection \<open>Every segment on its own\<close>

definition num_signals :: "edge_attrs \<Rightarrow> nat" where
  "num_signals d = (case signals d of None \<Rightarrow> 1 | Some l \<Rightarrow> length l)"

definition base_segment_diameter :: "edge_attrs \<Rightarrow> real" where
  "base_segment_diameter d =
     (let gg = (case gauge d of None \<Rightarrow> 20 | Some x \<Rightarrow> x);
          wire_diameter = wire_diameter_of gg;
          segment_area = real (num_signals d) * (wire_diameter / 2)\<^sup>2 * pi
      in 2 * sqrt (segment_area / pi))"

type_synonym diameter_map = "((node \<times> node) \<times> real) list"

definition base_segment_diameters :: "graph \<Rightarrow> diameter_map" where
  "base_segment_diameters g =
     fold (\<lambda>(u, v, d) sd. AList.update (u, v) (base_segment_diameter d) sd) (edges_data g) []"

subsection \<open>Whole graph, with the junction hierarchy\<close>

definition is_junction :: "node_attrs \<Rightarrow> bool" where
  "is_junction a \<longleftrightarrow> type_attr a = Some ''junction'' \<or> type_attr a = Some ''sub_junction''"

definition junction_nodes :: "graph \<Rightarrow> node list" where
  "junction_nodes g = map fst (filter (\<lambda>(n, a). is_junction a) (g_node g))"

text \<open>
  \<open>sorted(junction_nodes, key=lambda j: len(self.get_downstream_edges(j)), reverse=False)\<close>:
  Python's sort is stable, as the insertion sort \<open>sort_key\<close> is. A junction is a node of the
  graph, so \<open>get_downstream_edges\<close> does not raise here and is \<open>dfs_edges\<close>.
\<close>

definition sorted_junctions :: "graph \<Rightarrow> node list" where
  "sorted_junctions g = sort_key (\<lambda>j. length (dfs_edges g j)) (junction_nodes g)"

text \<open>The area of the downstream edges: only a pair that is a key of
  \<open>segment_diameters\<close> as it stands, \<open>(u, v)\<close> in this order, adds its area.\<close>

definition total_downstream_area :: "diameter_map \<Rightarrow> (node \<times> node) list \<Rightarrow> real" where
  "total_downstream_area segment_diameters downstream_edges =
     sum_list (map (\<lambda>e. case map_of segment_diameters e of
                            None \<Rightarrow> 0
                          | Some diameter \<Rightarrow> circle_area diameter) downstream_edges)"

definition incoming_edges :: "graph \<Rightarrow> node \<Rightarrow> (node \<times> node) list" where
  "incoming_edges g junction =
     map (\<lambda>(u, v). if u = junction then (v, junction) else (junction, u))
       (filter (\<lambda>(u, v). u = junction \<or> v = junction) (edges g))"

definition is_downstream :: "(node \<times> node) list \<Rightarrow> node \<times> node \<Rightarrow> bool" where
  "is_downstream downstream_edges e =
     (case e of (u, v) \<Rightarrow>
        list_ex (\<lambda>(du, dv). (u = du \<and> v = dv) \<or> (u = dv \<and> v = du)) downstream_edges)"

text \<open>The body of \<open>for edge in incoming_edges\<close>, on the pair of dictionaries
  (\<open>segment_diameters\<close>, \<open>space_utilization\<close>).\<close>

definition update_incoming :: "real \<Rightarrow> (node \<times> node) list \<Rightarrow> node \<times> node
    \<Rightarrow> diameter_map \<times> diameter_map \<Rightarrow> diameter_map \<times> diameter_map" where
  "update_incoming total_downstream downstream_edges edge st =
     (case edge of (u, v) \<Rightarrow> (case st of (segment_diameters, space_utilization) \<Rightarrow>
        if is_downstream downstream_edges (u, v) then st
        else
          (let base_diameter =
                 (case map_of segment_diameters (u, v) of
                    Some d \<Rightarrow> d
                  | None \<Rightarrow> (case map_of segment_diameters (v, u) of Some d \<Rightarrow> d | None \<Rightarrow> 0));
               base_area = circle_area base_diameter;
               total_area = base_area + total_downstream
           in if total_area > 0
              then (let new_diameter = 2 * sqrt (total_area / pi);
                        utilization = (base_area / total_area) * 100
                    in (AList.update (v, u) new_diameter
                          (AList.update (u, v) new_diameter segment_diameters),
                        AList.update (v, u) utilization
                          (AList.update (u, v) utilization space_utilization)))
              else st)))"

definition process_junction :: "graph \<Rightarrow> node \<Rightarrow> diameter_map \<times> diameter_map
    \<Rightarrow> diameter_map \<times> diameter_map" where
  "process_junction g junction st =
     (let downstream_edges = dfs_edges g junction;
          total_downstream = total_downstream_area (fst st) downstream_edges
      in fold (update_incoming total_downstream downstream_edges) (incoming_edges g junction) st)"

definition hierarchical_bundle_diameters :: "graph \<Rightarrow> diameter_map \<times> diameter_map" where
  "hierarchical_bundle_diameters g =
     (case fold (process_junction g) (sorted_junctions g) (base_segment_diameters g, []) of
        (segment_diameters, space_utilization) \<Rightarrow>
          (segment_diameters,
           if space_utilization = []
           then map (\<lambda>(k, d). (k, 100)) segment_diameters
           else space_utilization))"

text \<open>
  \<open>estimate_bundle_diameter(path=None, consider_hierarchy=True)\<close> of \<open>gui.py\<close>. \<open>if path:\<close>
  holds for a list that is not empty; \<open>None\<close> and \<open>[]\<close> select the whole graph.
\<close>

datatype bundle_result =
    BundleDiameter real
  | SegmentsAndUtilization diameter_map diameter_map
  | Segments diameter_map

definition truthy :: "node list option \<Rightarrow> bool" where
  "truthy path = (case path of None \<Rightarrow> False | Some p \<Rightarrow> p \<noteq> [])"

definition estimate_bundle_diameter :: "graph \<Rightarrow> node list option \<Rightarrow> bool \<Rightarrow> error + bundle_result" where
  "estimate_bundle_diameter g path consider_hierarchy =
     (if truthy path
      then (case path_bundle_diameter g (the path) of
              Inl e \<Rightarrow> Inl e | Inr d \<Rightarrow> Inr (BundleDiameter d))
      else if consider_hierarchy
      then (case hierarchical_bundle_diameters g of
              (sd, su) \<Rightarrow> Inr (SegmentsAndUtilization sd su))
      else Inr (Segments (base_segment_diameters g)))"

text \<open>\<open>estimate_bundle_diameter(path=None)\<close> of \<open>harness_analyzer.py\<close>: no hierarchy.\<close>

definition analyzer_estimate_bundle_diameter :: "graph \<Rightarrow> node list option \<Rightarrow> error + bundle_result" where
  "analyzer_estimate_bundle_diameter g path =
     (if truthy path
      then (case path_bundle_diameter g (the path) of
              Inl e \<Rightarrow> Inl e | Inr d \<Rightarrow> Inr (BundleDiameter d))
      else Inr (Segments (base_segment_diameters g)))"

section \<open>Installation complexity and the report\<close>

text \<open>
  \<open>np.mean\<close> of an empty list is NaN (\<open>None\<close> here), with a warning and no exception.
  Python's \<open>max(a, b)\<close> keeps \<open>a\<close> unless \<open>b > a\<close>, which is false for NaN;
  \<open>min(a, b)\<close> keeps \<open>a\<close> unless \<open>b < a\<close>. \<open>max\<close> of an empty sequence raises
  \<open>ValueError\<close>.
\<close>

definition np_mean :: "real list \<Rightarrow> real option" where
  "np_mean xs = (if xs = [] then None else Some (sum_list xs / real (length xs)))"

definition py_max :: "real \<Rightarrow> real option \<Rightarrow> real" where
  "py_max a b = (case b of None \<Rightarrow> a | Some x \<Rightarrow> if x > a then x else a)"

definition py_min :: "real \<Rightarrow> real \<Rightarrow> real" where
  "py_min a b = (if b < a then b else a)"

definition max_of :: "real list \<Rightarrow> error + real" where
  "max_of xs = (case xs of [] \<Rightarrow> Inl ValueError | x # rest \<Rightarrow> Inr (fold max rest x))"

definition min_of :: "real list \<Rightarrow> error + real" where
  "min_of xs = (case xs of [] \<Rightarrow> Inl ValueError | x # rest \<Rightarrow> Inr (fold min rest x))"

text \<open>\<open>sum(self.harness_graph[path[i]][path[i+1]]["length"] for i in range(len(path)-1))\<close>:
  \<open>KeyError\<close> for a pair without an edge and for an edge without the key.\<close>

fun path_lengths :: "graph \<Rightarrow> (node \<times> node) list \<Rightarrow> error + real list" where
  "path_lengths g [] = Inr []"
| "path_lengths g ((u, v) # es) =
     (case get_edge g u v of
        Inl e \<Rightarrow> Inl e
      | Inr d \<Rightarrow> (case length_attr d of
          None \<Rightarrow> Inl KeyError
        | Some l \<Rightarrow> (case path_lengths g es of Inl e \<Rightarrow> Inl e | Inr ls \<Rightarrow> Inr (l # ls))))"

definition path_length :: "graph \<Rightarrow> node list \<Rightarrow> error + real" where
  "path_length g path =
     (case path_lengths g (path_pairs path) of Inl e \<Rightarrow> Inl e | Inr ls \<Rightarrow> Inr (sum_list ls))"

text \<open>The path branch is the same in both files.\<close>

definition path_complexity :: "graph \<Rightarrow> node list \<Rightarrow> error + real" where
  "path_complexity g path =
     (case path_length g path of
        Inl e \<Rightarrow> Inl e
      | Inr pl \<Rightarrow> (case path_bundle_diameter g path of
          Inl e \<Rightarrow> Inl e
        | Inr bundle_diameter \<Rightarrow>
            (let complexity = pl * bundle_diameter * 0.8
             in Inr (py_min 10 (py_max 1 (Some complexity))))))"

text \<open>
  \<open>gui.py\<close>: the diameters are those of the hierarchical estimate, the mean is guarded by
  \<open>if diameters else 0\<close>, and junctions and sub-junctions are counted.
\<close>

definition average_diameter :: "diameter_map \<Rightarrow> real" where
  "average_diameter diameters =
     (if diameters = [] then 0 else sum_list (map snd diameters) / real (length diameters))"

definition estimate_installation_complexity :: "graph \<Rightarrow> node list option \<Rightarrow> error + real" where
  "estimate_installation_complexity g path =
     (if \<not> truthy path
      then (case calculate_total_length g of
              Inl e \<Rightarrow> Inl e
            | Inr total_length \<Rightarrow>
                (let diameters = fst (hierarchical_bundle_diameters g);
                     avg_diameter = average_diameter diameters;
                     num_junctions = length (junction_nodes g);
                     complexity = (total_length * avg_diameter * 0.5) + (real num_junctions * 1.5)
                 in Inr (py_min 10 (py_max 1 (Some complexity)))))
      else path_complexity g (the path))"

text \<open>
  \<open>harness_analyzer.py\<close>: the diameters of the segments on their own, \<open>np.mean\<close> without
  a guard, and only the nodes of type \<open>"junction"\<close> are counted.
\<close>

definition analyzer_num_junctions :: "graph \<Rightarrow> nat" where
  "analyzer_num_junctions g =
     length (filter (\<lambda>(n, a). type_attr a = Some ''junction'') (g_node g))"

definition analyzer_estimate_installation_complexity :: "graph \<Rightarrow> node list option \<Rightarrow> error + real" where
  "analyzer_estimate_installation_complexity g path =
     (if \<not> truthy path
      then (case calculate_total_length g of
              Inl e \<Rightarrow> Inl e
            | Inr total_length \<Rightarrow>
                (let avg_diameter = np_mean (map snd (base_segment_diameters g));
                     num_junctions = analyzer_num_junctions g;
                     complexity = (case avg_diameter of
                                     None \<Rightarrow> None
                                   | Some avg \<Rightarrow> Some ((total_length * avg * 0.5)
                                                        + (real num_junctions * 1.5)))
                 in Inr (py_min 10 (py_max 1 complexity))))
      else path_complexity g (the path))"

text \<open>\<open>round(x, ndigits)\<close> on the reals: to the nearest multiple of \<open>10 ^ -ndigits\<close>, a tie
  to the even one.\<close>

definition py_round :: "real \<Rightarrow> nat \<Rightarrow> real" where
  "py_round x ndigits =
     (let s = x * 10 ^ ndigits; f = \<lfloor>s\<rfloor>; r = s - of_int f
      in (if r < 1 / 2 then of_int f
          else if r > 1 / 2 then of_int (f + 1)
          else if even f then of_int f else of_int (f + 1)) / 10 ^ ndigits)"

type_synonym report = "(string \<times> real) list"

text \<open>
  \<open>generate_report(include_utilization=True)\<close> of \<open>gui.py\<close>. In the branch without the
  utilization the code calls \<open>estimate_bundle_diameter()\<close>, whose default is the
  hierarchical pair of dictionaries, and \<open>.values()\<close> of that tuple raises
  \<open>AttributeError\<close>.
\<close>

definition generate_report :: "graph \<Rightarrow> bool \<Rightarrow> error + report" where
  "generate_report g include_utilization =
     (case calculate_total_length g of
        Inl e \<Rightarrow> Inl e
      | Inr total_length \<Rightarrow>
          if include_utilization
          then (case hierarchical_bundle_diameters g of (diameters, utilization) \<Rightarrow>
            (let avg_diameter = average_diameter diameters;
                 max_diameter = (case max_of (map snd diameters) of Inl e \<Rightarrow> 0 | Inr m \<Rightarrow> m);
                 avg_utilization = average_diameter utilization;
                 min_utilization = (case min_of (map snd utilization) of Inl e \<Rightarrow> 0 | Inr m \<Rightarrow> m)
             in (case estimate_installation_complexity g None of
                   Inl e \<Rightarrow> Inl e
                 | Inr installation_complexity \<Rightarrow>
                     Inr [(''Total Components'', real (number_of_nodes g)),
                          (''Total Connections'', real (number_of_edges g)),
                          (''Number of Junctions'', real (length (junction_nodes g))),
                          (''Total Wire Length (m)'', py_round total_length 2),
                          (''Average Bundle Diameter (mm)'', py_round avg_diameter 2),
                          (''Maximum Bundle Diameter (mm)'', py_round max_diameter 2),
                          (''Installation Complexity (1-10)'', py_round installation_complexity 1),
                          (''Average Space Utilization (%)'', py_round avg_utilization 1),
                          (''Minimum Space Utilization (%)'', py_round min_utilization 1)])))
          else Inl AttributeError)"

text \<open>\<open>generate_report()\<close> of \<open>harness_analyzer.py\<close>: \<open>np.mean\<close> and \<open>max\<close> without a
  guard.\<close>

definition analyzer_generate_report :: "graph \<Rightarrow> error + report" where
  "analyzer_generate_report g =
     (case calculate_total_length g of
        Inl e \<Rightarrow> Inl e
      | Inr total_length \<Rightarrow>
          (let bundle_diameters = base_segment_diameters g;
               avg_diameter = np_mean (map snd bundle_diameters)
           in (case max_of (map snd bundle_diameters) of
                 Inl e \<Rightarrow> Inl e
               | Inr max_diameter \<Rightarrow>
                   (case analyzer_estimate_installation_complexity g None of
                      Inl e \<Rightarrow> Inl e
                    | Inr installation_complexity \<Rightarrow>
                        Inr [(''Total Components'', real (number_of_nodes g)),
                             (''Total Connections'', real (number_of_edges g)),
                             (''Total Wire Length (m)'', py_round total_length 2),
                             (''Average Bundle Diameter (mm)'', py_round (the avg_diameter) 2),
                             (''Maximum Bundle Diameter (mm)'', py_round max_diameter 2),
                             (''Installation Complexity (1-10)'',
                                py_round installation_complexity 1)]))))"

section \<open>The sample harness\<close>

text \<open>\<open>load_sample_data\<close> of \<open>harness_analyzer.py\<close>, on the graph the analyser holds.\<close>

definition node_data :: "string \<Rightarrow> real \<times> real \<Rightarrow> node_attrs" where
  "node_data t pos = \<lparr>type_attr = Some t, position_attr = Some pos, parent_attr = None,
     downstream_junctions_attr = None\<rparr>"

definition edge_data :: "string \<Rightarrow> int \<Rightarrow> real \<Rightarrow> string list \<Rightarrow> edge_attrs" where
  "edge_data wt gg l sigs = \<lparr>wire_type = Some wt, gauge = Some gg, length_attr = Some l,
     signals = Some sigs\<rparr>"

definition sample_nodes :: "(node \<times> node_attrs) list" where
  "sample_nodes =
     [(''ECU'', node_data ''controller'' (0, 0)),
      (''Sensor1'', node_data ''sensor'' (2, 1)),
      (''Sensor2'', node_data ''sensor'' (3, -1)),
      (''Actuator1'', node_data ''actuator'' (4, 2)),
      (''Actuator2'', node_data ''actuator'' (5, 0)),
      (''Junction1'', node_data ''junction'' (1, 0)),
      (''Junction2'', node_data ''junction'' (3, 0))]"

definition sample_edges :: "(node \<times> node \<times> edge_attrs) list" where
  "sample_edges =
     [(''ECU'', ''Junction1'', edge_data ''power'' 18 0.5 [''CAN_H'', ''CAN_L'']),
      (''Junction1'', ''Sensor1'', edge_data ''signal'' 22 1.2 [''Analog'']),
      (''Junction1'', ''Junction2'', edge_data ''power'' 20 2.0 [''CAN_H'', ''CAN_L'']),
      (''Junction2'', ''Sensor2'', edge_data ''signal'' 22 1.0 [''Digital'']),
      (''Junction2'', ''Actuator1'', edge_data ''power'' 16 1.5 [''PWM'']),
      (''Junction2'', ''Actuator2'', edge_data ''power'' 16 2.1 [''PWM''])]"

definition load_sample_data :: "graph \<Rightarrow> graph" where
  "load_sample_data g = add_edges_from sample_edges (add_nodes_from sample_nodes g)"

section \<open>Path finder\<close>

text \<open>
  \<open>find_optimal_path\<close> (the same in both files) calls \<open>nx.dijkstra_path\<close> and
  \<open>nx.dijkstra_path_length\<close> with \<open>weight='length'\<close>. The two are functions of the
  \<open>networkx\<close> library, not of this repository; they are written here as the library
  documents and implements them (\<open>_dijkstra_multisource\<close> with one source):
  \<^item> a source that is not in the graph raises \<open>NodeNotFound\<close>;
  \<^item> a target that is not reached raises \<open>NetworkXNoPath\<close>;
  \<^item> the weight of an edge is \<open>data.get('length', 1)\<close>;
  \<^item> the fringe is a heap of triples (distance, counter, node) and \<open>heappop\<close> takes the
    least triple; the counters are pairwise different, so the node is never compared;
  \<^item> a shorter way to a node that is already final raises \<open>ValueError\<close>
    ("Contradictory paths found: negative weights?").
\<close>

type_synonym fringe_item = "real \<times> nat \<times> node"

record dijkstra_state =
  dist_dict :: "node \<rightharpoonup> real"
  seen_dict :: "node \<rightharpoonup> real"
  fringe :: "fringe_item list"
  counter :: nat
  paths_dict :: "node \<rightharpoonup> node list"

definition item_le :: "fringe_item \<Rightarrow> fringe_item \<Rightarrow> bool" where
  "item_le a b \<longleftrightarrow> fst a < fst b \<or> (fst a = fst b \<and> fst (snd a) \<le> fst (snd b))"

fun least_item :: "fringe_item \<Rightarrow> fringe_item list \<Rightarrow> fringe_item" where
  "least_item m [] = m"
| "least_item m (x # xs) = least_item (if item_le m x then m else x) xs"

definition heappop :: "fringe_item list \<Rightarrow> (fringe_item \<times> fringe_item list) option" where
  "heappop fr = (case fr of [] \<Rightarrow> None
                 | x # xs \<Rightarrow> (let m = least_item x xs in Some (m, remove1 m fr)))"

text \<open>The loop \<open>for u, e in G_succ[v].items()\<close> of one node \<open>v\<close> with \<open>dist[v] = dv\<close>.\<close>

fun relax :: "node \<Rightarrow> real \<Rightarrow> (node \<times> edge_attrs) list \<Rightarrow> dijkstra_state
    \<Rightarrow> error + dijkstra_state" where
  "relax v dv [] s = Inr s"
| "relax v dv ((u, e) # rest) s =
     (let cost = (case length_attr e of None \<Rightarrow> 1 | Some l \<Rightarrow> l);
          vu_dist = dv + cost
      in (case dist_dict s u of
            Some u_dist \<Rightarrow> if vu_dist < u_dist then Inl ValueError else relax v dv rest s
          | None \<Rightarrow>
              if (case seen_dict s u of None \<Rightarrow> True | Some su \<Rightarrow> vu_dist < su)
              then relax v dv rest
                     (s\<lparr>seen_dict := (seen_dict s)(u \<mapsto> vu_dist),
                        fringe := fringe s @ [(vu_dist, counter s, u)],
                        counter := Suc (counter s),
                        paths_dict := (paths_dict s)(u \<mapsto> (case paths_dict s v of None \<Rightarrow> [] | Some p \<Rightarrow> p) @ [u])\<rparr>)
              else relax v dv rest s))"

lemma relax_keeps:
  "relax v dv nbrs s = Inr s' \<Longrightarrow>
     dist_dict s' = dist_dict s \<and> (snd \<circ> snd) ` set (fringe s') \<subseteq> (snd \<circ> snd) ` set (fringe s) \<union> fst ` set nbrs"
proof (induction nbrs arbitrary: s)
  case Nil
  then show ?case by simp
next
  case (Cons a nbrs)
  obtain u e where a: "a = (u, e)" by (cases a)
  define vu where "vu = dv + (case length_attr e of None \<Rightarrow> 1 | Some l \<Rightarrow> l)"
  show ?case
  proof (cases "dist_dict s u")
    case (Some u_dist)
    then have "relax v dv nbrs s = Inr s'"
      using Cons.prems a by (simp add: Let_def split: if_splits)
    from Cons.IH[OF this] show ?thesis by auto
  next
    case None
    show ?thesis
    proof (cases "case seen_dict s u of None \<Rightarrow> True | Some su \<Rightarrow> vu < su")
      case True
      define s1 where "s1 = s\<lparr>seen_dict := (seen_dict s)(u \<mapsto> vu),
                        fringe := fringe s @ [(vu, counter s, u)],
                        counter := Suc (counter s),
                        paths_dict := (paths_dict s)(u \<mapsto> (case paths_dict s v of None \<Rightarrow> [] | Some p \<Rightarrow> p) @ [u])\<rparr>"
      have "relax v dv nbrs s1 = Inr s'"
        using Cons.prems a None True unfolding vu_def s1_def by (simp add: Let_def)
      from Cons.IH[OF this] show ?thesis using a by (auto simp: s1_def)
    next
      case False
      then have "relax v dv nbrs s = Inr s'"
        using Cons.prems a None unfolding vu_def by (simp add: Let_def)
      from Cons.IH[OF this] show ?thesis by auto
    qed
  qed
qed

lemma least_item_mem: "least_item m xs \<in> set (m # xs)"
proof (induction xs arbitrary: m)
  case Nil
  then show ?case by simp
next
  case (Cons x xs)
  show ?case using Cons.IH[of "if item_le m x then m else x"] by (auto split: if_splits)
qed

lemma heappop_Some:
  assumes h: "heappop fr = Some (m, rest)"
  shows "m \<in> set fr \<and> set rest \<subseteq> set fr \<and> length rest < length fr"
proof -
  from h obtain x xs where fr: "fr = x # xs" by (cases fr) (auto simp: heappop_def)
  from h fr have m: "m = least_item x xs" and r: "rest = remove1 m fr"
    by (auto simp: heappop_def Let_def)
  have mem: "m \<in> set fr" using least_item_mem[of x xs] m fr by simp
  have "length rest = length fr - 1" using mem r by (simp add: length_remove1)
  then have "length rest < length fr" using fr by simp
  moreover have "set rest \<subseteq> set fr" using r by (simp add: set_remove1_subset)
  ultimately show ?thesis using mem by simp
qed

text \<open>The \<open>while fringe:\<close> loop of \<open>_dijkstra_multisource\<close>.\<close>

function dijkstra_loop :: "graph \<Rightarrow> node \<Rightarrow> dijkstra_state \<Rightarrow> error + dijkstra_state" where
  "dijkstra_loop g target s =
     (case heappop (fringe s) of
        None \<Rightarrow> Inr s
      | Some ((d, c, v), rest) \<Rightarrow>
          if dist_dict s v \<noteq> None then dijkstra_loop g target (s\<lparr>fringe := rest\<rparr>)
          else (let s1 = s\<lparr>fringe := rest, dist_dict := (dist_dict s)(v \<mapsto> d)\<rparr>
                in if v = target then Inr s1
                   else (case relax v d (adj g v) s1 of
                           Inl e \<Rightarrow> Inl e
                         | Inr s2 \<Rightarrow> dijkstra_loop g target s2)))"
  by pat_completeness auto

termination dijkstra_loop
proof (relation "inv_image (less_than <*lex*> less_than)
    (\<lambda>(g, target, s).
       (card ((adj_universe g \<union> (snd \<circ> snd) ` set (fringe s)) - dom (dist_dict s)),
        length (fringe s)))", goal_cases)
  case 1
  then show ?case by (intro wf_inv_image wf_lex_prod wf_less_than)
next
  case (2 g target s x2 x rest d ya c v)
  then have hp: "heappop (fringe s) = Some ((d, c, v), rest)" by simp
  from heappop_Some[OF hp] have sub: "set rest \<subseteq> set (fringe s)"
    and len: "length rest < length (fringe s)"
    by auto
  have fin: "finite ((adj_universe g \<union> (snd \<circ> snd) ` set (fringe s)) - dom (dist_dict s))"
    by (simp add: finite_adj_universe)
  have "(adj_universe g \<union> (snd \<circ> snd) ` set rest) - dom (dist_dict s)
        \<subseteq> (adj_universe g \<union> (snd \<circ> snd) ` set (fringe s)) - dom (dist_dict s)"
    using sub by auto
  then have "card ((adj_universe g \<union> (snd \<circ> snd) ` set rest) - dom (dist_dict s))
        \<le> card ((adj_universe g \<union> (snd \<circ> snd) ` set (fringe s)) - dom (dist_dict s))"
    using fin by (rule card_mono[rotated])
  then show ?case using len by auto
next
  case (3 g target s x2 x rest d ya c v s1 s2)
  then have hp: "heappop (fringe s) = Some ((d, c, v), rest)" by simp
  from heappop_Some[OF hp] have mem: "(d, c, v) \<in> set (fringe s)"
    and sub: "set rest \<subseteq> set (fringe s)"
    by auto
  have vnew: "v \<notin> dom (dist_dict s)" using 3 by auto
  have rl: "relax v d (adj g v) (s\<lparr>fringe := rest, dist_dict := (dist_dict s)(v \<mapsto> d)\<rparr>) = Inr s2"
    using 3 by simp
  from relax_keeps[OF rl] have d2: "dist_dict s2 = (dist_dict s)(v \<mapsto> d)"
    and f2: "(snd \<circ> snd) ` set (fringe s2) \<subseteq> (snd \<circ> snd) ` set rest \<union> fst ` set (adj g v)"
    by auto
  have nb: "fst ` set (adj g v) \<subseteq> adj_universe g"
    using neighbors_universe[of g v] by (simp add: neighbors_def)
  have vin: "v \<in> (snd \<circ> snd) ` set (fringe s)" using mem by force
  have fin: "finite ((adj_universe g \<union> (snd \<circ> snd) ` set (fringe s)) - dom (dist_dict s))"
    by (simp add: finite_adj_universe)
  have "(adj_universe g \<union> (snd \<circ> snd) ` set (fringe s2)) - dom (dist_dict s2)
        \<subset> (adj_universe g \<union> (snd \<circ> snd) ` set (fringe s)) - dom (dist_dict s)"
  proof
    define F where "F = (snd \<circ> snd) ` set (fringe s)"
    define F2 where "F2 = (snd \<circ> snd) ` set (fringe s2)"
    define R where "R = (snd \<circ> snd) ` set rest"
    have "R \<subseteq> F" unfolding R_def F_def using sub by (rule image_mono)
    moreover have "F2 \<subseteq> R \<union> fst ` set (adj g v)" unfolding F2_def R_def by (rule f2)
    ultimately have a: "F2 \<subseteq> adj_universe g \<union> F" using nb by blast
    have b: "dom (dist_dict s) \<subseteq> dom (dist_dict s2)" unfolding d2 by (simp add: subset_insertI)
    have "(adj_universe g \<union> F2) - dom (dist_dict s2) \<subseteq> (adj_universe g \<union> F) - dom (dist_dict s)"
      using a b by blast
    then show "(adj_universe g \<union> (snd \<circ> snd) ` set (fringe s2)) - dom (dist_dict s2)
        \<subseteq> (adj_universe g \<union> (snd \<circ> snd) ` set (fringe s)) - dom (dist_dict s)"
      unfolding F_def F2_def .
    have "v \<in> (adj_universe g \<union> (snd \<circ> snd) ` set (fringe s)) - dom (dist_dict s)"
      using vin vnew by simp
    moreover have "v \<notin> (adj_universe g \<union> (snd \<circ> snd) ` set (fringe s2)) - dom (dist_dict s2)"
      using d2 by simp
    ultimately show "(adj_universe g \<union> (snd \<circ> snd) ` set (fringe s2)) - dom (dist_dict s2)
        \<noteq> (adj_universe g \<union> (snd \<circ> snd) ` set (fringe s)) - dom (dist_dict s)"
      by blast
  qed
  then have "card ((adj_universe g \<union> (snd \<circ> snd) ` set (fringe s2)) - dom (dist_dict s2))
        < card ((adj_universe g \<union> (snd \<circ> snd) ` set (fringe s)) - dom (dist_dict s))"
    using fin by (rule psubset_card_mono[rotated])
  then show ?case by simp
qed

declare dijkstra_loop.simps [simp del]

text \<open>\<open>n in G\<close>\<close>

definition has_node :: "graph \<Rightarrow> node \<Rightarrow> bool" where
  "has_node g n \<longleftrightarrow> map_of (g_node g) n \<noteq> None"

definition initial_state :: "node \<Rightarrow> dijkstra_state" where
  "initial_state source = \<lparr>dist_dict = Map.empty, seen_dict = [source \<mapsto> 0],
     fringe = [(0, 0, source)], counter = 1, paths_dict = [source \<mapsto> [source]]\<rparr>"

definition dijkstra_path :: "graph \<Rightarrow> node \<Rightarrow> node \<Rightarrow> error + node list" where
  "dijkstra_path g source target =
     (if \<not> has_node g source then Inl NodeNotFound
      else if target = source then Inr [target]
      else (case dijkstra_loop g target (initial_state source) of
              Inl e \<Rightarrow> Inl e
            | Inr s \<Rightarrow> (case (dist_dict s target, paths_dict s target) of
                          (Some d, Some p) \<Rightarrow> Inr p
                        | _ \<Rightarrow> Inl NetworkXNoPath)))"

definition dijkstra_path_length :: "graph \<Rightarrow> node \<Rightarrow> node \<Rightarrow> error + real" where
  "dijkstra_path_length g source target =
     (if \<not> has_node g source then Inl NodeNotFound
      else if source = target then Inr 0
      else (case dijkstra_loop g target (initial_state source) of
              Inl e \<Rightarrow> Inl e
            | Inr s \<Rightarrow> (case dist_dict s target of
                          Some d \<Rightarrow> Inr d
                        | None \<Rightarrow> Inl NetworkXNoPath)))"

text \<open>
  \<open>find_optimal_path\<close>: only \<open>NetworkXNoPath\<close> is caught. The weight is a real number or
  \<open>float('inf')\<close>.
\<close>

datatype weight = Finite real | Infinity

definition find_optimal_path :: "graph \<Rightarrow> node \<Rightarrow> node \<Rightarrow> error + (node list option \<times> weight)" where
  "find_optimal_path g source target =
     (case dijkstra_path g source target of
        Inl e \<Rightarrow> (if e = NetworkXNoPath then Inr (None, Infinity) else Inl e)
      | Inr path \<Rightarrow>
          (case dijkstra_path_length g source target of
             Inl e \<Rightarrow> (if e = NetworkXNoPath then Inr (None, Infinity) else Inl e)
           | Inr l \<Rightarrow> Inr (Some path, Finite l)))"

section \<open>Notions used to state the properties\<close>

text \<open>Replacing the signals of every edge.\<close>

definition with_signals :: "(edge_attrs \<Rightarrow> string list option) \<Rightarrow> graph \<Rightarrow> graph" where
  "with_signals f g = g\<lparr>g_adj := map (\<lambda>(n, nbrs). (n, map (\<lambda>(m, d). (m, d\<lparr>signals := f d\<rparr>)) nbrs)) (g_adj g)\<rparr>"

definition in_graph :: "graph \<Rightarrow> node \<Rightarrow> bool" where
  "in_graph g n \<longleftrightarrow> map_of (g_adj g) n \<noteq> None"

definition connected :: "graph \<Rightarrow> bool" where
  "connected g \<longleftrightarrow> (\<forall>u \<in> set (nodes g). \<forall>v \<in> set (nodes g). (u, v) \<in> (nbr_rel g)\<^sup>*)"

text \<open>A small harness with a cycle: a junction \<open>J\<close> and two sensors, each wired to both others.\<close>

definition loop_harness :: graph where
  "loop_harness =
     add_edges_from
       [(''A'', ''J'', edge_data ''signal'' 20 1.0 [''S1'']),
        (''A'', ''B'', edge_data ''signal'' 20 1.0 [''S2'']),
        (''J'', ''B'', edge_data ''signal'' 20 1.0 [''S3''])]
       (add_nodes_from
          [(''A'', node_data ''sensor'' (0, 0)),
           (''J'', node_data ''junction'' (1, 0)),
           (''B'', node_data ''sensor'' (1, 1))] nx_Graph)"


text \<open>\<open>segment_diameters.get((u, v), segment_diameters.get((v, u), 0))\<close>\<close>

definition current_diameter :: "diameter_map \<Rightarrow> node \<times> node \<Rightarrow> real" where
  "current_diameter sd e =
     (case map_of sd e of
        Some d \<Rightarrow> d
      | None \<Rightarrow> (case map_of sd (snd e, fst e) of Some d \<Rightarrow> d | None \<Rightarrow> 0))"



text \<open>The two dictionaries after the loop over the junctions, before the default
  utilization is filled in.\<close>

definition aggregated :: "graph \<Rightarrow> diameter_map \<times> diameter_map" where
  "aggregated g = fold (process_junction g) (sorted_junctions g) (base_segment_diameters g, [])"

text \<open>Two junctions and no wire.\<close>

definition junctions_only :: graph where
  "junctions_only =
     add_nodes_from
       [(''J1'', node_data ''junction'' (0, 0)),
        (''J2'', node_data ''junction'' (1, 0))] nx_Graph"

text \<open>Two nodes joined by a wire that was added without a gauge.\<close>

definition ungauged_harness :: graph where
  "ungauged_harness =
     add_edge ''A'' ''B''
       \<lparr>wire_type = Some ''signal'', gauge = None, length_attr = Some 1.0, signals = None\<rparr>
       nx_Graph"


section \<open>Auxiliary facts: the depth-first traversal\<close>

lemma discovery_order_append:
  "discovery_order S (xs @ ys) = (discovery_order S xs \<and> discovery_order (S \<union> snd ` set xs) ys)"
  by (induction xs arbitrary: S) (auto simp: insert_commute Un_commute)

definition dfs_post :: "graph \<Rightarrow> node set \<times> (node \<times> node) list \<Rightarrow> node set \<times> (node \<times> node) list \<Rightarrow> bool" where
  "dfs_post g st st' \<longleftrightarrow> (\<exists>new. snd st' = snd st @ new \<and> discovery_order (fst st) new
      \<and> fst st' = fst st \<union> snd ` set new \<and> set new \<subseteq> nbr_rel g)"

lemma dfs_post_refl: "dfs_post g st st"
  by (simp add: dfs_post_def)

lemma dfs_post_trans: "dfs_post g st1 st2 \<Longrightarrow> dfs_post g st2 st3 \<Longrightarrow> dfs_post g st1 st3"
  unfolding dfs_post_def
  apply (elim exE conjE)
  subgoal for new1 new2
    apply (rule exI[of _ "new1 @ new2"])
    apply (auto simp: discovery_order_append)
    done
  done

lemma dfs_post_edge:
  "c \<in> V \<Longrightarrow> n \<notin> V \<Longrightarrow> (c, n) \<in> nbr_rel g \<Longrightarrow> dfs_post g (V, out) (insert n V, out @ [(c, n)])"
  unfolding dfs_post_def by (rule exI[of _ "[(c, n)]"]) auto

lemma dfs_structure:
  "dfs_post g (insert c (fst st), snd st) (dfs g c p st)"
  "c \<in> fst st \<Longrightarrow> set ns \<subseteq> set (neighbors g c) \<Longrightarrow> dfs_post g st (dfs_for g c p ns st)"
proof (induction g c p st and g c p ns st rule: dfs_dfs_for.induct)
  case (1 g current_node parent visited downstream_edges)
  then show ?case by (simp add: dfs.simps)
next
  case (2 g current_node parent st)
  then show ?case by (simp add: dfs_post_refl)
next
  case (3 g current_node parent neighbor rest visited downstream_edges)
  show ?case
  proof (cases "Some neighbor \<noteq> parent \<and> neighbor \<notin> visited")
    case True
    let ?st1 = "(visited, downstream_edges @ [(current_node, neighbor)])"
    let ?st2 = "dfs g neighbor (Some current_node) ?st1"
    have e: "(current_node, neighbor) \<in> nbr_rel g"
      using 3(5) by (simp add: nbr_rel_def)
    have a: "dfs_post g (visited, downstream_edges) (insert neighbor visited, downstream_edges @ [(current_node, neighbor)])"
      using dfs_post_edge[OF _ _ e] 3(4) True by simp
    have b: "dfs_post g (insert neighbor visited, downstream_edges @ [(current_node, neighbor)]) ?st2"
      using 3(1)[OF True] by simp
    have ab: "dfs_post g (visited, downstream_edges) ?st2"
      by (rule dfs_post_trans[OF a b])
    have "current_node \<in> fst ?st2"
      using ab 3(4) unfolding dfs_post_def by auto
    then have c: "dfs_post g ?st2 (dfs_for g current_node parent rest ?st2)"
      using 3(2)[OF True] 3(5) by simp
    show ?thesis using True dfs_post_trans[OF ab c] by simp
  next
    case False
    then have "dfs_for g current_node parent (neighbor # rest) (visited, downstream_edges)
        = dfs_for g current_node parent rest (visited, downstream_edges)"
      by auto
    then show ?thesis using 3(3)[OF False] 3(4,5) by simp
  qed
qed


lemma dfs_visited_grows:
  "fst st \<subseteq> fst (dfs g c p st)"
  "fst st \<subseteq> fst (dfs_for g c p ns st)"
proof (induction g c p st and g c p ns st rule: dfs_dfs_for.induct)
  case (1 g current_node parent visited downstream_edges)
  then show ?case by (auto simp: dfs.simps)
next
  case (2 g current_node parent st)
  then show ?case by simp
next
  case (3 g current_node parent neighbor rest visited downstream_edges)
  then show ?case by (auto split: if_splits)
qed

lemma dfs_closed:
  "(\<forall>q. p = Some q \<longrightarrow> q \<in> fst st) \<Longrightarrow>
     \<forall>x \<in> insert c (fst (dfs g c p st) - fst st). set (neighbors g x) \<subseteq> fst (dfs g c p st)"
  "c \<in> fst st \<Longrightarrow> (\<forall>q. p = Some q \<longrightarrow> q \<in> fst st) \<Longrightarrow>
     set ns \<subseteq> fst (dfs_for g c p ns st) \<and>
     (\<forall>x \<in> fst (dfs_for g c p ns st) - fst st. set (neighbors g x) \<subseteq> fst (dfs_for g c p ns st))"
proof (induction g c p st and g c p ns st rule: dfs_dfs_for.induct)
  case (1 g current_node parent visited downstream_edges)
  have "set (neighbors g current_node) \<subseteq> fst (dfs g current_node parent (visited, downstream_edges)) \<and>
     (\<forall>x \<in> fst (dfs g current_node parent (visited, downstream_edges)) - insert current_node visited.
        set (neighbors g x) \<subseteq> fst (dfs g current_node parent (visited, downstream_edges)))"
    using 1(1) 1(2) by (simp add: dfs.simps)
  then show ?case by auto
next
  case (2 g current_node parent st)
  then show ?case by simp
next
  case (3 g current_node parent neighbor rest visited downstream_edges)
  show ?case
  proof (cases "Some neighbor \<noteq> parent \<and> neighbor \<notin> visited")
    case True
    let ?st1 = "(visited, downstream_edges @ [(current_node, neighbor)])"
    let ?st2 = "dfs g neighbor (Some current_node) ?st1"
    let ?st3 = "dfs_for g current_node parent rest ?st2"
    have eq: "dfs_for g current_node parent (neighbor # rest) (visited, downstream_edges) = ?st3"
      using True by simp
    have g12: "visited \<subseteq> fst ?st2" using dfs_visited_grows(1)[of ?st1 g neighbor "Some current_node"] by simp
    have g23: "fst ?st2 \<subseteq> fst ?st3" by (rule dfs_visited_grows(2))
    have n2: "neighbor \<in> fst ?st2"
      using dfs_structure(1)[of g neighbor ?st1 "Some current_node"] unfolding dfs_post_def by auto
    have c1: "\<forall>x \<in> insert neighbor (fst ?st2 - visited). set (neighbors g x) \<subseteq> fst ?st2"
      using 3(1)[OF True] 3(4) by simp
    have c2: "set rest \<subseteq> fst ?st3 \<and> (\<forall>x \<in> fst ?st3 - fst ?st2. set (neighbors g x) \<subseteq> fst ?st3)"
      using 3(2)[OF True] 3(4,5) g12 by auto
    have "set (neighbor # rest) \<subseteq> fst ?st3" using c2 n2 g23 by auto
    moreover have "\<forall>x \<in> fst ?st3 - visited. set (neighbors g x) \<subseteq> fst ?st3"
      using c1 c2 g23 by blast
    ultimately show ?thesis unfolding eq by simp
  next
    case False
    then have "neighbor \<in> visited" using 3(5) by auto
    then show ?thesis using 3(3)[OF False] 3(4,5) False
        dfs_visited_grows(2)[of "(visited, downstream_edges)" g current_node parent rest] by auto
  qed
qed

lemma discovery_order_targets:
  "discovery_order S es \<Longrightarrow> distinct (map snd es) \<and> snd ` set es \<inter> S = {}"
proof (induction es arbitrary: S)
  case Nil
  then show ?case by simp
next
  case (Cons e es)
  obtain a b where e: "e = (a, b)" by (cases e)
  from Cons.prems e have h: "a \<in> S" "b \<notin> S" "discovery_order (insert b S) es" by auto
  from Cons.IH[OF h(3)] have "distinct (map snd es)" "snd ` set es \<inter> insert b S = {}" by auto
  then show ?case using e h by auto
qed

lemma discovery_order_no_back_edge:
  "discovery_order S es \<Longrightarrow> (u, v) \<in> set es \<Longrightarrow> (v, u) \<notin> set es"
proof (induction es arbitrary: S)
  case Nil
  then show ?case by simp
next
  case (Cons e es)
  obtain a b where e: "e = (a, b)" by (cases e)
  from Cons.prems e have h: "a \<in> S" "b \<notin> S" "discovery_order (insert b S) es" by auto
  have t: "snd ` set es \<inter> insert b S = {}" using discovery_order_targets[OF h(3)] by simp
  have na: "\<And>x. (x, a) \<notin> set es"
  proof
    fix x assume "(x, a) \<in> set es"
    then have "a \<in> snd ` set es" by force
    then show False using t h(1) by auto
  qed
  show ?case
  proof
    assume rev_e: "(v, u) \<in> set (e # es)"
    then have r: "(v = a \<and> u = b) \<or> (v, u) \<in> set es" by (simp add: e)
    have f: "(u = a \<and> v = b) \<or> (u, v) \<in> set es" using Cons.prems(2) by (simp add: e)
    show False
    proof (cases "(u, v) \<in> set es")
      case True
      show False
      proof (cases "(v, u) \<in> set es")
        case True
        then show False using Cons.IH[OF h(3) \<open>(u, v) \<in> set es\<close>] by simp
      next
        case False
        then have "v = a" using r by blast
        then show False using na[of u] True by blast
      qed
    next
      case False
      then have uv: "u = a" "v = b" using f by simp_all
      show False
      proof (cases "(v, u) \<in> set es")
        case True
        then show False using na[of b] uv by blast
      next
        case False
        then have "v = a \<and> u = b" using r by blast
        then have "b = a" using uv by blast
        then show False using h(1,2) by blast
      qed
    qed
  qed
qed

lemma discovery_order_reach:
  "discovery_order S es \<Longrightarrow> set es \<subseteq> nbr_rel g \<Longrightarrow> S \<subseteq> reachable g r \<Longrightarrow> snd ` set es \<subseteq> reachable g r"
proof (induction es arbitrary: S)
  case Nil
  then show ?case by simp
next
  case (Cons e es)
  obtain a b where e: "e = (a, b)" by (cases e)
  from Cons.prems e have h: "a \<in> S" "b \<notin> S" "discovery_order (insert b S) es" "(a, b) \<in> nbr_rel g" by auto
  have "b \<in> reachable g r" using h(1,4) Cons.prems(3) unfolding reachable_def
    by (auto intro: rtrancl_into_rtrancl)
  then show ?case using Cons.IH[OF h(3)] Cons.prems e by auto
qed

lemma dfs_edges_spec:
  "discovery_order {rt} (dfs_edges g rt)"
  "set (dfs_edges g rt) \<subseteq> nbr_rel g"
  "insert rt (snd ` set (dfs_edges g rt)) = reachable g rt"
proof -
  let ?r = "dfs g rt None ({}, [])"
  have post: "dfs_post g ({rt}, []) ?r"
    using dfs_structure(1)[of g rt "({}, [])" None] by simp
  then show do: "discovery_order {rt} (dfs_edges g rt)" and nb: "set (dfs_edges g rt) \<subseteq> nbr_rel g"
    unfolding dfs_post_def dfs_edges_def by auto
  have V: "fst ?r = insert rt (snd ` set (dfs_edges g rt))"
    using post unfolding dfs_post_def dfs_edges_def by auto
  have closed: "\<forall>x \<in> fst ?r. set (neighbors g x) \<subseteq> fst ?r"
    using dfs_closed(1)[of None "({}, [])" rt g] V by auto
  have sub1: "reachable g rt \<subseteq> fst ?r"
  proof
    fix x assume "x \<in> reachable g rt"
    then have "(rt, x) \<in> (nbr_rel g)\<^sup>*" by (simp add: reachable_def)
    then show "x \<in> fst ?r"
    proof (induction rule: rtrancl_induct)
      case base
      then show ?case using V by simp
    next
      case (step y z)
      then show ?case using closed by (auto simp: nbr_rel_def)
    qed
  qed
  have "rt \<in> reachable g rt" by (simp add: reachable_def)
  then have sub2: "snd ` set (dfs_edges g rt) \<subseteq> reachable g rt"
    using discovery_order_reach[OF do nb, of rt] by simp
  show "insert rt (snd ` set (dfs_edges g rt)) = reachable g rt"
    using sub1 sub2 V \<open>rt \<in> reachable g rt\<close> by auto
qed

lemma length_dfs_edges: "length (dfs_edges g rt) = card (reachable g rt) - 1"
proof -
  have d: "distinct (map snd (dfs_edges g rt))" "rt \<notin> snd ` set (dfs_edges g rt)"
    using discovery_order_targets[OF dfs_edges_spec(1)[of rt g]] by auto
  have "card (reachable g rt) = card (insert rt (snd ` set (dfs_edges g rt)))"
    by (simp add: dfs_edges_spec(3))
  also have "\<dots> = Suc (card (snd ` set (dfs_edges g rt)))"
    using d(2) by simp
  also have "card (snd ` set (dfs_edges g rt)) = length (dfs_edges g rt)"
    using d(1) distinct_card[of "map snd (dfs_edges g rt)"] by simp
  finally show ?thesis by simp
qed

section \<open>Auxiliary facts: the graphs networkx can hold\<close>

lemma wf_neighbors_sym:
  assumes "wf_graph g" "v \<in> set (neighbors g u)"
  shows "u \<in> set (neighbors g v)"
proof -
  from assms(2) obtain d where d: "(v, d) \<in> set (adj g u)"
    by (auto simp: neighbors_def)
  then obtain nbrs where nb: "map_of (g_adj g) u = Some nbrs" "adj g u = nbrs"
    by (cases "map_of (g_adj g) u") (auto simp: adj_def)
  then have "(u, nbrs) \<in> set (g_adj g)" by (auto dest: map_of_SomeD)
  then have "map_of (adj g v) u = Some d"
    using assms(1) d nb unfolding wf_graph_def by fastforce
  then have "(u, d) \<in> set (adj g v)" by (rule map_of_SomeD)
  then show ?thesis by (force simp: neighbors_def)
qed

lemma wf_neighbors_nodes:
  assumes "wf_graph g" "v \<in> set (neighbors g u)"
  shows "v \<in> set (nodes g)"
proof -
  have "u \<in> set (neighbors g v)" by (rule wf_neighbors_sym[OF assms])
  then have "adj g v \<noteq> []" by (auto simp: neighbors_def)
  then obtain nbrs where "map_of (g_adj g) v = Some nbrs"
    by (cases "map_of (g_adj g) v") (auto simp: adj_def)
  then have "v \<in> fst ` set (g_adj g)" by (force dest: map_of_SomeD)
  then show ?thesis using assms(1) unfolding wf_graph_def nodes_def
    by (metis set_map)
qed

lemma wf_sym_rel: "wf_graph g \<Longrightarrow> sym (nbr_rel g)"
  unfolding sym_def nbr_rel_def by (auto intro: wf_neighbors_sym)

lemma reachable_nodes:
  assumes "wf_graph g" "n \<in> set (nodes g)"
  shows "reachable g n \<subseteq> set (nodes g)"
proof
  fix x assume "x \<in> reachable g n"
  then have "(n, x) \<in> (nbr_rel g)\<^sup>*" by (simp add: reachable_def)
  then show "x \<in> set (nodes g)"
  proof (induction rule: rtrancl_induct)
    case base
    then show ?case by (rule assms(2))
  next
    case (step y z)
    then show ?case using wf_neighbors_nodes[OF assms(1)] by (auto simp: nbr_rel_def)
  qed
qed

lemma reachable_same_component:
  assumes "wf_graph g" "(n, m) \<in> (nbr_rel g)\<^sup>*"
  shows "reachable g m = reachable g n"
proof -
  have "sym ((nbr_rel g)\<^sup>*)" using wf_sym_rel[OF assms(1)] by (rule sym_rtrancl)
  then have mn: "(m, n) \<in> (nbr_rel g)\<^sup>*" using assms(2) by (auto dest: symD)
  show ?thesis unfolding reachable_def
  proof (intro equalityI subsetI)
    fix x assume "x \<in> (nbr_rel g)\<^sup>* `` {m}"
    then show "x \<in> (nbr_rel g)\<^sup>* `` {n}" using assms(2) by (auto intro: rtrancl_trans)
  next
    fix x assume "x \<in> (nbr_rel g)\<^sup>* `` {n}"
    then show "x \<in> (nbr_rel g)\<^sup>* `` {m}" using mn by (auto intro: rtrancl_trans)
  qed
qed

lemma connected_reachable:
  assumes "wf_graph g" "connected g" "n \<in> set (nodes g)"
  shows "reachable g n = set (nodes g)"
proof
  show "reachable g n \<subseteq> set (nodes g)" by (rule reachable_nodes[OF assms(1,3)])
  show "set (nodes g) \<subseteq> reachable g n"
    using assms(2,3) unfolding connected_def reachable_def by auto
qed

lemma sort_key_same_key:
  assumes "\<forall>x \<in> set xs. P x \<longrightarrow> f x = k"
  shows "filter P (sort_key f xs) = filter P xs"
proof -
  have "filter P (sort_key f xs) = filter P (filter (\<lambda>y. f y = k) (sort_key f xs))"
    using assms by (auto intro!: filter_cong simp: conj_commute)
  also have "\<dots> = filter P (filter (\<lambda>y. f y = k) xs)"
    by (simp only: sort_key_stable)
  also have "\<dots> = filter P xs"
    using assms by (auto intro!: filter_cong simp: conj_commute)
  finally show ?thesis .
qed

lemma wf_in_graph:
  assumes "wf_graph g" "n \<in> set (nodes g)"
  shows "in_graph g n"
proof -
  have "n \<in> fst ` set (g_adj g)"
    using assms unfolding wf_graph_def nodes_def by (metis set_map)
  then show ?thesis unfolding in_graph_def by (simp add: map_of_eq_None_iff)
qed

lemma loop_harness_facts:
  "in_graph loop_harness ''J''"
  "get_downstream_edges loop_harness ''J'' = Inr [(''J'', ''A''), (''A'', ''B'')]"
  "wf_graph loop_harness"
  "nodes loop_harness = [''A'', ''J'', ''B'']"
  "neighbors loop_harness ''A'' = [''J'', ''B'']"
  "neighbors loop_harness ''J'' = [''A'', ''B'']"
  "neighbors loop_harness ''B'' = [''A'', ''J'']"
  "number_of_nodes loop_harness = 3"
  "junction_nodes loop_harness = [''J'']"
  by code_simp+

lemma loop_harness_connected: "connected loop_harness"
proof -
  have e: "(u, v) \<in> nbr_rel loop_harness"
    if "u \<in> {''A'', ''J'', ''B''}" "v \<in> {''A'', ''J'', ''B''}" "u \<noteq> v" for u v
    using that by (auto simp: nbr_rel_def loop_harness_facts)
  show ?thesis
    unfolding connected_def loop_harness_facts(4)
  proof (intro ballI)
    fix u v assume "u \<in> set [''A'', ''J'', ''B'']" "v \<in> set [''A'', ''J'', ''B'']"
    then show "(u, v) \<in> (nbr_rel loop_harness)\<^sup>*"
      using e[of u v] by (cases "u = v") auto
  qed
qed













section \<open>Auxiliary facts: arithmetic and the empty graph\<close>

lemma py_clamp: "py_min 10 (py_max 1 (Some x)) = min 10 (max 1 x)"
  by (simp add: py_min_def py_max_def min_def max_def)

lemma py_clamp_nan: "py_min 10 (py_max 1 None) = 1"
  by (simp add: py_min_def py_max_def)

lemma py_clamp_bounds: "1 \<le> py_min 10 (py_max 1 c) \<and> py_min 10 (py_max 1 c) \<le> 10"
  by (cases c) (simp_all add: py_min_def py_max_def)

lemma path_complexity_formula:
  assumes "path_complexity g p = Inr c"
  shows "\<exists>pl bd. path_length g p = Inr pl \<and> path_bundle_diameter g p = Inr bd
           \<and> c = min 10 (max 1 (pl * bd * 0.8))"
  using assms unfolding path_complexity_def
  by (auto simp: Let_def py_clamp split: sum.splits)

lemma path_complexity_bounds:
  assumes "path_complexity g p = Inr c"
  shows "1 \<le> c \<and> c \<le> 10"
  using assms py_clamp_bounds unfolding path_complexity_def
  by (auto simp: Let_def split: sum.splits)

lemma empty_graph_total_length: "calculate_total_length nx_Graph = Inr 0"
  by (simp add: calculate_total_length_def edges_data_def nx_Graph_def)

lemma empty_graph_hier: "hierarchical_bundle_diameters nx_Graph = ([], [])"
  by (simp add: hierarchical_bundle_diameters_def sorted_junctions_def junction_nodes_def
      base_segment_diameters_def edges_data_def nx_Graph_def)

lemma empty_graph_junctions: "junction_nodes nx_Graph = []"
  by (simp add: junction_nodes_def nx_Graph_def)

lemma empty_graph_base: "base_segment_diameters nx_Graph = []"
  by (simp add: base_segment_diameters_def edges_data_def nx_Graph_def)

lemma empty_graph_complexity: "estimate_installation_complexity nx_Graph None = Inr 1"
  by (simp add: estimate_installation_complexity_def truthy_def empty_graph_total_length
      empty_graph_hier average_diameter_def empty_graph_junctions py_clamp)

lemma empty_graph_analyzer_complexity:
  "analyzer_estimate_installation_complexity nx_Graph None = Inr 1"
  by (simp add: analyzer_estimate_installation_complexity_def truthy_def empty_graph_total_length
      empty_graph_base np_mean_def py_clamp_nan)

lemma py_round_0: "py_round 0 n = 0"
  by (simp add: py_round_def)

lemma py_round_1: "py_round 1 n = 1"
proof -
  have e: "(1::real) * 10 ^ n = of_int (10 ^ n)" by simp
  have f: "\<lfloor>(1::real) * 10 ^ n\<rfloor> = 10 ^ n" unfolding e by (rule floor_of_int)
  show ?thesis unfolding py_round_def Let_def f by simp
qed

lemma empty_graph_counts:
  "number_of_nodes nx_Graph = 0" "number_of_edges nx_Graph = 0"
  by (simp_all add: number_of_nodes_def number_of_edges_def edges_data_def nx_Graph_def)

lemma empty_graph_report:
  "generate_report nx_Graph True =
     Inr [(''Total Components'', 0), (''Total Connections'', 0), (''Number of Junctions'', 0),
          (''Total Wire Length (m)'', 0), (''Average Bundle Diameter (mm)'', 0),
          (''Maximum Bundle Diameter (mm)'', 0), (''Installation Complexity (1-10)'', 1),
          (''Average Space Utilization (%)'', 0), (''Minimum Space Utilization (%)'', 0)]"
  by (simp add: generate_report_def empty_graph_total_length empty_graph_hier
      empty_graph_complexity empty_graph_counts empty_graph_junctions average_diameter_def
      max_of_def min_of_def py_round_0 py_round_1)

lemma empty_graph_analyzer_report: "analyzer_generate_report nx_Graph = Inl ValueError"
  by (simp add: analyzer_generate_report_def empty_graph_total_length empty_graph_base
      max_of_def)

lemma equivalent_diameter_0: "equivalent_diameter 0 = 0"
  by (simp add: equivalent_diameter_def)

lemma path_diameters_no_edges:
  "\<forall>(u, v) \<in> set es. \<not> has_edge g u v \<Longrightarrow> path_diameters g es = Inr []"
  by (induction es) auto

lemma path_diameters_filter:
  "path_diameters g es = path_diameters g (filter (\<lambda>(u, v). has_edge g u v) es)"
  by (induction es) (auto split: sum.splits option.splits)

lemma map_of_map_snd: "map_of (map (\<lambda>(k, v). (k, f v)) xs) k = map_option f (map_of xs k)"
  by (induction xs) auto

lemma with_signals_adj:
  "map_of (g_adj (with_signals f g)) u
   = map_option (map (\<lambda>(m, d). (m, d\<lparr>signals := f d\<rparr>))) (map_of (g_adj g) u)"
  unfolding with_signals_def by (simp add: map_of_map_snd)

lemma with_signals_has_edge: "has_edge (with_signals f g) u v = has_edge g u v"
  unfolding has_edge_def with_signals_adj
  by (auto simp: map_of_map_snd split: option.splits)

lemma with_signals_get_edge:
  "get_edge (with_signals f g) u v = map_sum id (\<lambda>d. d\<lparr>signals := f d\<rparr>) (get_edge g u v)"
  unfolding get_edge_def with_signals_adj
  by (auto simp: map_of_map_snd split: option.splits)

lemma with_signals_path_diameters:
  "path_diameters (with_signals f g) es = path_diameters g es"
  by (induction es) (auto simp: with_signals_has_edge with_signals_get_edge split: sum.splits option.splits)


lemma equivalent_diameter_circle_area: "equivalent_diameter (circle_area d) = \<bar>d\<bar>"
proof -
  have "circle_area d / pi = (d / 2)\<^sup>2" by (simp add: circle_area_def)
  then have "sqrt (circle_area d / pi) = \<bar>d / 2\<bar>" by (simp only: real_sqrt_abs)
  then show ?thesis by (simp add: equivalent_diameter_def)
qed

lemma has_edge_get_edge: "has_edge g u v \<Longrightarrow> \<exists>d. get_edge g u v = Inr d"
  by (auto simp: has_edge_def get_edge_def split: option.splits)

lemma path_diameters_returns:
  "\<forall>(u, v) \<in> set es. has_edge g u v \<longrightarrow> (\<exists>d gg. get_edge g u v = Inr d \<and> gauge d = Some gg)
   \<Longrightarrow> \<exists>ds. path_diameters g es = Inr ds"
proof (induction es)
  case Nil
  then show ?case by simp
next
  case (Cons e es)
  obtain u v where e: "e = (u, v)" by (cases e)
  from Cons.prems have "\<forall>(u, v) \<in> set es. has_edge g u v \<longrightarrow> (\<exists>d gg. get_edge g u v = Inr d \<and> gauge d = Some gg)"
    by simp
  from Cons.IH[OF this] obtain ds where ds: "path_diameters g es = Inr ds" by blast
  show ?case
  proof (cases "has_edge g u v")
    case True
    then obtain d gg where "get_edge g u v = Inr d" "gauge d = Some gg"
      using Cons.prems e by auto
    then show ?thesis using True ds e by simp
  next
    case False
    then show ?thesis using ds e by simp
  qed
qed

lemma path_bundle_diameter_empty: "path_bundle_diameter g [] = Inr 0"
  by (simp add: path_bundle_diameter_def path_pairs_def equivalent_diameter_0)

lemma sample_gap_path_pairs:
  "path_pairs [''ECU'', ''Sensor1'', ''Junction1''] = [(''ECU'', ''Sensor1''), (''Sensor1'', ''Junction1'')]"
  by (simp add: path_pairs_def)

lemma sample_gap_edges:
  "\<not> has_edge (load_sample_data nx_Graph) ''ECU'' ''Sensor1''"
  "has_edge (load_sample_data nx_Graph) ''Sensor1'' ''Junction1''"
  "get_edge (load_sample_data nx_Graph) ''Sensor1'' ''Junction1''
     = Inr (edge_data ''signal'' 22 1.2 [''Analog''])"
  "path_diameters (load_sample_data nx_Graph) [(''Sensor1'', ''Junction1'')] = Inr [0.64]"
  by code_simp+


lemma circle_area_pos: "d \<noteq> 0 \<Longrightarrow> 0 < circle_area d"
  by (simp add: circle_area_def)






lemma base_segment_diameter_eq:
  "base_segment_diameter d
   = equivalent_diameter (real (num_signals d)
       * circle_area (wire_diameter_of (case gauge d of None \<Rightarrow> 20 | Some x \<Rightarrow> x)))"
  by (simp add: base_segment_diameter_def equivalent_diameter_def circle_area_def Let_def)





lemma path_diameters_explicit:
  "\<forall>(u, v) \<in> set es. has_edge g u v \<longrightarrow> (\<exists>d gg. get_edge g u v = Inr d \<and> gauge d = Some gg)
   \<Longrightarrow> path_diameters g es
        = Inr (map (\<lambda>(u, v). wire_diameter_of (the (gauge (projr (get_edge g u v)))))
                 (filter (\<lambda>(u, v). has_edge g u v) es))"
proof (induction es)
  case Nil
  then show ?case by simp
next
  case (Cons e es)
  obtain u v where e: "e = (u, v)" by (cases e)
  from Cons.prems have "\<forall>(u, v) \<in> set es. has_edge g u v \<longrightarrow> (\<exists>d gg. get_edge g u v = Inr d \<and> gauge d = Some gg)"
    by simp
  note ih = Cons.IH[OF this]
  show ?case
  proof (cases "has_edge g u v")
    case True
    then obtain d gg where "get_edge g u v = Inr d" "gauge d = Some gg"
      using Cons.prems e by auto
    then show ?thesis using True ih e by simp
  next
    case False
    then show ?thesis using ih e by simp
  qed
qed

lemma path_diameters_raises:
  "path_diameters g es = Inl e \<Longrightarrow>
   e = KeyError \<and> (\<exists>(u, v) \<in> set es. has_edge g u v \<and> (\<exists>d. get_edge g u v = Inr d \<and> gauge d = None))"
proof (induction es)
  case Nil
  then show ?case by simp
next
  case (Cons x es)
  obtain u v where x: "x = (u, v)" by (cases x)
  show ?case
  proof (cases "has_edge g u v")
    case False
    then have "path_diameters g es = Inl e" using Cons.prems x by simp
    from Cons.IH[OF this] show ?thesis by auto
  next
    case True
    then obtain d where d: "get_edge g u v = Inr d" using has_edge_get_edge by blast
    show ?thesis
    proof (cases "gauge d")
      case None
      then have "e = KeyError" using Cons.prems x True d by simp
      moreover have "(u, v) \<in> set (x # es)" using x by simp
      ultimately show ?thesis using True d None by blast
    next
      case (Some gg)
      then have "path_diameters g es = Inl e"
        using Cons.prems x True d by (simp split: sum.splits)
      from Cons.IH[OF this] show ?thesis by auto
    qed
  qed
qed

lemma ungauged_harness_facts:
  "path_pairs [''A'', ''B''] = [(''A'', ''B'')]"
  "has_edge ungauged_harness ''A'' ''B''"
  "get_edge ungauged_harness ''A'' ''B''
     = Inr \<lparr>wire_type = Some ''signal'', gauge = None, length_attr = Some 1.0, signals = None\<rparr>"
  "path_diameters ungauged_harness [(''A'', ''B'')] = Inl KeyError"
  by code_simp+

section \<open>Auxiliary facts: the hierarchical aggregation\<close>

lemma update_incoming_eq:
  "update_incoming t des (u, v) (sd, su) =
     (if is_downstream des (u, v) \<or> \<not> 0 < circle_area (current_diameter sd (u, v)) + t
      then (sd, su)
      else (AList.update (v, u) (equivalent_diameter (circle_area (current_diameter sd (u, v)) + t))
              (AList.update (u, v) (equivalent_diameter (circle_area (current_diameter sd (u, v)) + t)) sd),
            AList.update (v, u) (circle_area (current_diameter sd (u, v))
                                   / (circle_area (current_diameter sd (u, v)) + t) * 100)
              (AList.update (u, v) (circle_area (current_diameter sd (u, v))
                                   / (circle_area (current_diameter sd (u, v)) + t) * 100) su)))"
  by (simp add: update_incoming_def current_diameter_def equivalent_diameter_def Let_def
      split: option.splits)








lemma hierarchical_aggregated:
  "hierarchical_bundle_diameters g =
     (fst (aggregated g),
      if snd (aggregated g) = [] then map (\<lambda>(k, d). (k, 100)) (fst (aggregated g))
      else snd (aggregated g))"
  by (simp add: hierarchical_bundle_diameters_def aggregated_def split: prod.splits)

lemma estimate_hierarchical:
  "estimate_bundle_diameter g None True = Inr (SegmentsAndUtilization sd su)
   \<longleftrightarrow> hierarchical_bundle_diameters g = (sd, su)"
  by (auto simp: estimate_bundle_diameter_def truthy_def split: prod.splits)


lemma loop_harness_edges_data:
  "edges_data loop_harness =
     [(''A'', ''J'', edge_data ''signal'' 20 1.0 [''S1'']),
      (''A'', ''B'', edge_data ''signal'' 20 1.0 [''S2'']),
      (''J'', ''B'', edge_data ''signal'' 20 1.0 [''S3''])]"
  "sorted_junctions loop_harness = [''J'']"
  "dfs_edges loop_harness ''J'' = [(''J'', ''A''), (''A'', ''B'')]"
  "incoming_edges loop_harness ''J'' = [(''J'', ''A''), (''B'', ''J'')]"
  by code_simp+

lemma base_segment_diameter_sample: "base_segment_diameter (edge_data wt 20 l [s]) = 0.81"
proof -
  have "base_segment_diameter (edge_data wt 20 l [s]) = equivalent_diameter (circle_area 0.81)"
    by (simp add: base_segment_diameter_eq edge_data_def num_signals_def wire_diameter_of_def
        gauge_to_diameter_def)
  then show ?thesis by (simp add: equivalent_diameter_circle_area)
qed

lemma equivalent_diameter_double:
  assumes d: "0 \<le> d"
  shows "equivalent_diameter (2 * circle_area d) = d * sqrt 2"
proof -
  have "2 * circle_area d / pi = 2 * (d / 2)\<^sup>2" by (simp add: circle_area_def)
  then have "sqrt (2 * circle_area d / pi) = sqrt 2 * \<bar>d / 2\<bar>"
    by (simp only: real_sqrt_mult real_sqrt_abs)
  also have "\<dots> = sqrt 2 * (d / 2)" using d by simp
  finally have e: "sqrt (2 * circle_area d / pi) = sqrt 2 * (d / 2)" .
  show ?thesis unfolding equivalent_diameter_def e by simp
qed

lemma loop_harness_base:
  "base_segment_diameters loop_harness =
     [((''A'', ''J''), 0.81), ((''A'', ''B''), 0.81), ((''J'', ''B''), 0.81)]"
  by (simp add: base_segment_diameters_def loop_harness_edges_data base_segment_diameter_sample)

lemma loop_harness_downstream_area:
  "total_downstream_area (base_segment_diameters loop_harness) (dfs_edges loop_harness ''J'')
     = circle_area 0.81"
  by (simp add: total_downstream_area_def loop_harness_base loop_harness_edges_data)

lemma loop_harness_aggregated:
  "aggregated loop_harness =
     ([((''A'', ''J''), 0.81), ((''A'', ''B''), 0.81), ((''J'', ''B''), 0.81 * sqrt 2),
       ((''B'', ''J''), 0.81 * sqrt 2)],
      [((''B'', ''J''), 50), ((''J'', ''B''), 50)])"
proof -
  have pos: "0 < circle_area (81 / 100)" by (rule circle_area_pos) simp
  have "equivalent_diameter (2 * circle_area (81 / 100)) = 81 / 100 * sqrt 2"
    by (rule equivalent_diameter_double) simp
  then have nd: "equivalent_diameter (2 * circle_area (81 / 100)) = 81 * sqrt 2 / 100" by simp
  have ut: "circle_area (81 / 100) / (circle_area (81 / 100) + circle_area (81 / 100)) * 100 = 50"
    using pos by (simp add: field_simps)
  have cur: "current_diameter [((''A'', ''J''), 81 / 100), ((''A'', ''B''), 81 / 100), ((''J'', ''B''), 81 / 100)]
      (''B'', ''J'') = 81 / 100"
    by (simp add: current_diameter_def)
  have tda: "total_downstream_area [((''A'', ''J''), 81 / 100), ((''A'', ''B''), 81 / 100), ((''J'', ''B''), 81 / 100)]
      [(''J'', ''A''), (''A'', ''B'')] = circle_area (81 / 100)"
    by (simp add: total_downstream_area_def)
  show ?thesis
    using pos
    by (simp add: aggregated_def loop_harness_edges_data loop_harness_base process_junction_def
        tda update_incoming_eq is_downstream_def cur nd ut Let_def)
qed

lemma loop_harness_hierarchical:
  "hierarchical_bundle_diameters loop_harness =
     ([((''A'', ''J''), 0.81), ((''A'', ''B''), 0.81), ((''J'', ''B''), 0.81 * sqrt 2),
       ((''B'', ''J''), 0.81 * sqrt 2)],
      [((''B'', ''J''), 50), ((''J'', ''B''), 50)])"
  by (simp add: hierarchical_aggregated loop_harness_aggregated)





lemma edge_lengths_returns:
  "\<forall>(u, v, d) \<in> set es. length_attr d \<noteq> None \<Longrightarrow>
     edge_lengths es = Inr (map (\<lambda>(u, v, d). the (length_attr d)) es)"
proof (induction es)
  case Nil
  then show ?case by simp
next
  case (Cons e es)
  obtain u v d where e: "e = (u, v, d)" by (cases e)
  from Cons.prems e obtain l where l: "length_attr d = Some l" by auto
  from Cons.prems have "\<forall>(u, v, d) \<in> set es. length_attr d \<noteq> None" by simp
  from Cons.IH[OF this] show ?case using e l by simp
qed

lemma total_length_returns:
  "\<forall>(u, v, d) \<in> set (edges_data g). length_attr d \<noteq> None \<Longrightarrow>
     calculate_total_length g = Inr (sum_list (map (\<lambda>(u, v, d). the (length_attr d)) (edges_data g)))"
  by (simp add: calculate_total_length_def edge_lengths_returns)

lemma path_lengths_returns:
  "\<forall>(u, v) \<in> set es. \<exists>d l. get_edge g u v = Inr d \<and> length_attr d = Some l
   \<Longrightarrow> \<exists>ls. path_lengths g es = Inr ls"
proof (induction es)
  case Nil
  then show ?case by simp
next
  case (Cons e es)
  obtain u v where e: "e = (u, v)" by (cases e)
  from Cons.prems e obtain d l where dl: "get_edge g u v = Inr d" "length_attr d = Some l" by auto
  from Cons.prems have "\<forall>(u, v) \<in> set es. \<exists>d l. get_edge g u v = Inr d \<and> length_attr d = Some l"
    by simp
  from Cons.IH[OF this] obtain ls where "path_lengths g es = Inr ls" by blast
  then show ?case using e dl by simp
qed

lemma path_complexity_returns:
  assumes "\<forall>(u, v) \<in> set (path_pairs p).
             \<exists>d l gg. get_edge g u v = Inr d \<and> length_attr d = Some l \<and> gauge d = Some gg"
  shows "\<exists>pl bd. path_length g p = Inr pl \<and> path_bundle_diameter g p = Inr bd \<and>
           path_complexity g p = Inr (min 10 (max 1 (pl * bd * 0.8)))"
proof -
  have "\<forall>(u, v) \<in> set (path_pairs p). \<exists>d l. get_edge g u v = Inr d \<and> length_attr d = Some l"
    using assms by fast
  from path_lengths_returns[OF this] obtain ls where ls: "path_lengths g (path_pairs p) = Inr ls"
    by blast
  have "\<forall>(u, v) \<in> set (path_pairs p).
          has_edge g u v \<longrightarrow> (\<exists>d gg. get_edge g u v = Inr d \<and> gauge d = Some gg)"
    using assms by fast
  from path_diameters_returns[OF this] obtain ds where ds: "path_diameters g (path_pairs p) = Inr ds"
    by blast
  have pl: "path_length g p = Inr (sum_list ls)" using ls by (simp add: path_length_def)
  have bd: "path_bundle_diameter g p = Inr (equivalent_diameter (sum_list (map circle_area ds)))"
    using ds by (simp add: path_bundle_diameter_def)
  have "path_complexity g p
      = Inr (min 10 (max 1 (sum_list ls * equivalent_diameter (sum_list (map circle_area ds)) * 0.8)))"
    unfolding path_complexity_def pl bd by (simp add: py_clamp)
  then show ?thesis using pl bd by blast
qed

lemma loop_harness_more:
  "analyzer_num_junctions loop_harness = 1"
  "path_pairs [''A'', ''J'', ''B''] = [(''A'', ''J''), (''J'', ''B'')]"
  "get_edge loop_harness ''A'' ''J'' = Inr (edge_data ''signal'' 20 1.0 [''S1''])"
  "get_edge loop_harness ''J'' ''B'' = Inr (edge_data ''signal'' 20 1.0 [''S3''])"
  "path_length loop_harness [''A'', ''J'', ''B''] = Inr 2"
  "path_diameters loop_harness [(''A'', ''J''), (''J'', ''B'')] = Inr [0.81, 0.81]"
  by code_simp+

lemma junctions_only_facts:
  "edges_data junctions_only = []"
  "junction_nodes junctions_only = [''J1'', ''J2'']"
  "analyzer_num_junctions junctions_only = 2"
  "sorted_junctions junctions_only = [''J1'', ''J2'']"
  "incoming_edges junctions_only ''J1'' = []"
  "incoming_edges junctions_only ''J2'' = []"
  by code_simp+

lemma sqrt2_bounds: "1 < sqrt 2" "sqrt 2 < 2"
proof -
  show "1 < sqrt 2" by simp
  have "sqrt 2 < sqrt 4" by (rule real_sqrt_less_mono) simp
  then show "sqrt 2 < 2" by simp
qed

lemma loop_harness_path_bundle:
  "path_bundle_diameter loop_harness [''A'', ''J'', ''B''] = Inr (0.81 * sqrt 2)"
proof -
  have "equivalent_diameter (2 * circle_area (81 / 100)) = 81 / 100 * sqrt 2"
    by (rule equivalent_diameter_double) simp
  then show ?thesis
    unfolding path_bundle_diameter_def loop_harness_more(2) loop_harness_more(6) by simp
qed

lemma loop_harness_complexity:
  "estimate_installation_complexity loop_harness None
     = Inr (min 10 (max 1 (3 * ((0.81 + 0.81 + 0.81 * sqrt 2 + 0.81 * sqrt 2) / 4) * 0.5 + 1 * 1.5)))"
proof -
  have len: "\<forall>(u, v, d) \<in> set (edges_data loop_harness). length_attr d \<noteq> None"
    by (simp add: loop_harness_edges_data edge_data_def)
  have t: "calculate_total_length loop_harness = Inr 3"
    using total_length_returns[OF len] by (simp add: loop_harness_edges_data edge_data_def)
  have "estimate_installation_complexity loop_harness None
     = Inr (min 10 (max 1 (3 * average_diameter
         [((''A'', ''J''), 0.81), ((''A'', ''B''), 0.81), ((''J'', ''B''), 0.81 * sqrt 2),
          ((''B'', ''J''), 0.81 * sqrt 2)] * 0.5 + real (length [''J'']) * 1.5)))"
    unfolding estimate_installation_complexity_def loop_harness_hierarchical loop_harness_facts(9)
    by (simp add: truthy_def t py_clamp Let_def)
  moreover have "3 * average_diameter
         [((''A'', ''J''), 0.81), ((''A'', ''B''), 0.81), ((''J'', ''B''), 0.81 * sqrt 2),
          ((''B'', ''J''), 0.81 * sqrt 2)] * 0.5 + real (length [''J'']) * 1.5
      = 3 * ((0.81 + 0.81 + 0.81 * sqrt 2 + 0.81 * sqrt 2) / 4) * 0.5 + 1 * 1.5"
    by (simp add: average_diameter_def)
  ultimately show ?thesis by (simp only:)
qed

lemma junctions_only_hierarchical: "hierarchical_bundle_diameters junctions_only = ([], [])"
  by (simp add: hierarchical_bundle_diameters_def junctions_only_facts base_segment_diameters_def
      process_junction_def)












section \<open>The claims\<close>

text \<open>
  Claim C7, as amended. For the whole graph (no path, or an empty one) with a length on
  every edge, \<open>estimate_installation_complexity\<close> returns
  \<open>min(10, max(1, total_length * m * 0.5 + j * 1.5))\<close>. In \<open>gui.py\<close>, \<open>m\<close> is
  the mean of the values of the hierarchical diameter dictionary (0 when it is empty): an
  edge the aggregation has updated is stored under both of its directed keys and counts
  twice; \<open>j\<close> counts the junctions and the sub-junctions. In \<open>harness_analyzer.py\<close>,
  stated for a graph with at least one edge, \<open>m\<close> is the mean of the diameters of the
  segments on their own and \<open>j\<close> counts the nodes of type \<open>"junction"\<close>. For a path
  that is not empty and whose consecutive pairs are all edges with a length and a gauge,
  both return \<open>min(10, max(1, path_length * bundle_diameter * 0.8))\<close>. Every value
  returned lies in \<open>[1, 10]\<close>.
\<close>

theorem installation_complexity_formula:
  "(\<not> truthy path \<longrightarrow> (\<forall>(u, v, d) \<in> set (edges_data g). length_attr d \<noteq> None) \<longrightarrow>
      (\<exists>total_length.
         calculate_total_length g = Inr total_length \<and>
         total_length = sum_list (map (\<lambda>(u, v, d). the (length_attr d)) (edges_data g)) \<and>
         estimate_installation_complexity g path
           = Inr (min 10 (max 1 (total_length
                * (if fst (hierarchical_bundle_diameters g) = [] then 0
                   else sum_list (map snd (fst (hierarchical_bundle_diameters g)))
                        / real (length (fst (hierarchical_bundle_diameters g)))) * 0.5
                + real (length (junction_nodes g)) * 1.5))) \<and>
         (base_segment_diameters g \<noteq> [] \<longrightarrow>
            analyzer_estimate_installation_complexity g path
              = Inr (min 10 (max 1 (total_length
                   * (sum_list (map snd (base_segment_diameters g))
                      / real (length (base_segment_diameters g))) * 0.5
                   + real (analyzer_num_junctions g) * 1.5)))))) \<and>
   (truthy path \<longrightarrow>
      (\<forall>(u, v) \<in> set (path_pairs (the path)).
         \<exists>d l gg. get_edge g u v = Inr d \<and> length_attr d = Some l \<and> gauge d = Some gg) \<longrightarrow>
      (\<exists>pl bd.
         path_length g (the path) = Inr pl \<and> path_bundle_diameter g (the path) = Inr bd \<and>
         estimate_installation_complexity g path = Inr (min 10 (max 1 (pl * bd * 0.8))) \<and>
         analyzer_estimate_installation_complexity g path = Inr (min 10 (max 1 (pl * bd * 0.8))))) \<and>
   (estimate_installation_complexity g path = Inr c \<longrightarrow> 1 \<le> c \<and> c \<le> 10) \<and>
   (analyzer_estimate_installation_complexity g path = Inr c' \<longrightarrow> 1 \<le> c' \<and> c' \<le> 10)"
proof (intro conjI impI)
  assume np: "\<not> truthy path" and len: "\<forall>(u, v, d) \<in> set (edges_data g). length_attr d \<noteq> None"
  define tl where "tl = sum_list (map (\<lambda>(u, v, d). the (length_attr d)) (edges_data g))"
  have t: "calculate_total_length g = Inr tl"
    unfolding tl_def by (rule total_length_returns[OF len])
  have a: "estimate_installation_complexity g path
           = Inr (min 10 (max 1 (tl
                * (if fst (hierarchical_bundle_diameters g) = [] then 0
                   else sum_list (map snd (fst (hierarchical_bundle_diameters g)))
                        / real (length (fst (hierarchical_bundle_diameters g)))) * 0.5
                + real (length (junction_nodes g)) * 1.5)))"
    using np by (simp add: estimate_installation_complexity_def t average_diameter_def py_clamp Let_def)
  have b: "analyzer_estimate_installation_complexity g path
              = Inr (min 10 (max 1 (tl
                   * (sum_list (map snd (base_segment_diameters g))
                      / real (length (base_segment_diameters g))) * 0.5
                   + real (analyzer_num_junctions g) * 1.5)))"
    if "base_segment_diameters g \<noteq> []"
    using np that
    by (simp add: analyzer_estimate_installation_complexity_def t np_mean_def py_clamp Let_def)
  show "\<exists>total_length.
         calculate_total_length g = Inr total_length \<and>
         total_length = sum_list (map (\<lambda>(u, v, d). the (length_attr d)) (edges_data g)) \<and>
         estimate_installation_complexity g path
           = Inr (min 10 (max 1 (total_length
                * (if fst (hierarchical_bundle_diameters g) = [] then 0
                   else sum_list (map snd (fst (hierarchical_bundle_diameters g)))
                        / real (length (fst (hierarchical_bundle_diameters g)))) * 0.5
                + real (length (junction_nodes g)) * 1.5))) \<and>
         (base_segment_diameters g \<noteq> [] \<longrightarrow>
            analyzer_estimate_installation_complexity g path
              = Inr (min 10 (max 1 (total_length
                   * (sum_list (map snd (base_segment_diameters g))
                      / real (length (base_segment_diameters g))) * 0.5
                   + real (analyzer_num_junctions g) * 1.5))))"
    using t a b tl_def by (intro exI[of _ tl]) blast
next
  assume tp: "truthy path"
    and ok: "\<forall>(u, v) \<in> set (path_pairs (the path)).
         \<exists>d l gg. get_edge g u v = Inr d \<and> length_attr d = Some l \<and> gauge d = Some gg"
  from path_complexity_returns[OF ok] obtain pl bd where
    r: "path_length g (the path) = Inr pl" "path_bundle_diameter g (the path) = Inr bd"
       "path_complexity g (the path) = Inr (min 10 (max 1 (pl * bd * 0.8)))"
    by blast
  have "estimate_installation_complexity g path = path_complexity g (the path)"
    using tp by (simp add: estimate_installation_complexity_def)
  moreover have "analyzer_estimate_installation_complexity g path = path_complexity g (the path)"
    using tp by (simp add: analyzer_estimate_installation_complexity_def)
  ultimately show "\<exists>pl bd.
         path_length g (the path) = Inr pl \<and> path_bundle_diameter g (the path) = Inr bd \<and>
         estimate_installation_complexity g path = Inr (min 10 (max 1 (pl * bd * 0.8))) \<and>
         analyzer_estimate_installation_complexity g path = Inr (min 10 (max 1 (pl * bd * 0.8)))"
    using r by (intro exI[of _ pl] exI[of _ bd]) simp
next
  assume h: "estimate_installation_complexity g path = Inr c"
  have "1 \<le> c \<and> c \<le> 10"
  proof (cases "truthy path")
    case True
    then have "path_complexity g (the path) = Inr c"
      using h by (simp add: estimate_installation_complexity_def)
    then show ?thesis by (rule path_complexity_bounds)
  next
    case False
    then obtain x where "c = py_min 10 (py_max 1 x)"
      using h by (auto simp: estimate_installation_complexity_def Let_def split: sum.splits)
    then show ?thesis using py_clamp_bounds[of x] by simp
  qed
  then show "1 \<le> c" and "c \<le> 10" by simp_all
next
  assume h: "analyzer_estimate_installation_complexity g path = Inr c'"
  have "1 \<le> c' \<and> c' \<le> 10"
  proof (cases "truthy path")
    case True
    then have "path_complexity g (the path) = Inr c'"
      using h by (simp add: analyzer_estimate_installation_complexity_def)
    then show ?thesis by (rule path_complexity_bounds)
  next
    case False
    then obtain x where "c' = py_min 10 (py_max 1 x)"
      using h by (auto simp: analyzer_estimate_installation_complexity_def Let_def split: sum.splits)
    then show ?thesis using py_clamp_bounds[of x] by simp
  qed
  then show "1 \<le> c'" and "c' \<le> 10" by simp_all
qed

theorem installation_complexity_formula_witness:
  "\<not> truthy None \<and>
   list_all (\<lambda>(u, v, d). length_attr d \<noteq> None) (edges_data loop_harness) \<and>
   base_segment_diameters loop_harness \<noteq> [] \<and>
   estimate_installation_complexity loop_harness None
     = Inr (min 10 (max 1 (3 * ((0.81 + 0.81 + 0.81 * sqrt 2 + 0.81 * sqrt 2) / 4) * 0.5 + 1 * 1.5))) \<and>
   analyzer_estimate_installation_complexity loop_harness None
     = Inr (min 10 (max 1 (3 * ((0.81 + 0.81 + 0.81) / 3) * 0.5 + 1 * 1.5))) \<and>
   truthy (Some [''A'', ''J'', ''B'']) \<and>
   estimate_installation_complexity loop_harness (Some [''A'', ''J'', ''B''])
     = Inr (min 10 (max 1 (2 * (0.81 * sqrt 2) * 0.8))) \<and>
   analyzer_estimate_installation_complexity loop_harness (Some [''A'', ''J'', ''B''])
     = Inr (min 10 (max 1 (2 * (0.81 * sqrt 2) * 0.8)))"
proof -
  have np: "\<not> truthy None" by (simp add: truthy_def)
  have len: "\<forall>(u, v, d) \<in> set (edges_data loop_harness). length_attr d \<noteq> None"
    by (simp add: loop_harness_edges_data edge_data_def)
  have ne: "base_segment_diameters loop_harness \<noteq> []" by (simp add: loop_harness_base)
  from installation_complexity_formula[of None loop_harness] np len ne
  obtain tl where tl: "calculate_total_length loop_harness = Inr tl"
      "tl = sum_list (map (\<lambda>(u, v, d). the (length_attr d)) (edges_data loop_harness))"
    and an: "analyzer_estimate_installation_complexity loop_harness None
              = Inr (min 10 (max 1 (tl
                   * (sum_list (map snd (base_segment_diameters loop_harness))
                      / real (length (base_segment_diameters loop_harness))) * 0.5
                   + real (analyzer_num_junctions loop_harness) * 1.5)))"
    by blast
  have tl3: "tl = 3" unfolding tl(2) by (simp add: loop_harness_edges_data edge_data_def)
  have a: "analyzer_estimate_installation_complexity loop_harness None
     = Inr (min 10 (max 1 (3 * ((0.81 + 0.81 + 0.81) / 3) * 0.5 + 1 * 1.5)))"
    unfolding an tl3 loop_harness_base loop_harness_more(1) by simp
  have tp: "truthy (Some [''A'', ''J'', ''B''])" by (simp add: truthy_def)
  have ok: "\<forall>(u, v) \<in> set (path_pairs (the (Some [''A'', ''J'', ''B'']))).
         \<exists>d l gg. get_edge loop_harness u v = Inr d \<and> length_attr d = Some l \<and> gauge d = Some gg"
    by (simp add: loop_harness_more edge_data_def)
  from installation_complexity_formula[of "Some [''A'', ''J'', ''B'']" loop_harness] tp ok
  obtain pl bd where p: "path_length loop_harness (the (Some [''A'', ''J'', ''B''])) = Inr pl"
      "path_bundle_diameter loop_harness (the (Some [''A'', ''J'', ''B''])) = Inr bd"
      "estimate_installation_complexity loop_harness (Some [''A'', ''J'', ''B''])
         = Inr (min 10 (max 1 (pl * bd * 0.8)))"
      "analyzer_estimate_installation_complexity loop_harness (Some [''A'', ''J'', ''B''])
         = Inr (min 10 (max 1 (pl * bd * 0.8)))"
    by blast
  have pl: "pl = 2" using p(1) by (simp add: loop_harness_more)
  have bd: "bd = 0.81 * sqrt 2" using p(2) by (simp add: loop_harness_path_bundle)
  show ?thesis
    using np len ne loop_harness_complexity a tp p(3,4) unfolding pl bd list_all_iff by blast
qed

text \<open>
  The claim as it was stated fails. On the harness with a cycle the score of \<open>gui.py\<close> is
  not the one computed from the mean over the three segments, because the updated segment
  is counted under both keys. On two junctions without a wire, \<open>gui.py\<close> returns
  \<open>0 * 0 * 0.5 + 2 * 1.5 = 3\<close> and \<open>harness_analyzer.py\<close> returns 1, the mean of no
  diameters being NaN.
\<close>

theorem installation_complexity_counterexample:
  "estimate_installation_complexity loop_harness None
     \<noteq> Inr (min 10 (max 1 (3 * ((0.81 + 0.81 + 0.81 * sqrt 2) / 3) * 0.5 + 1 * 1.5))) \<and>
   estimate_installation_complexity junctions_only None = Inr 3 \<and>
   analyzer_estimate_installation_complexity junctions_only None = Inr 1"
proof -
  define s where "s = sqrt 2"
  have b: "1 < s" "s < 2" using sqrt2_bounds by (simp_all add: s_def)
  define x1 where "x1 = 3 * ((0.81 + 0.81 + 0.81 * s + 0.81 * s) / 4) * 0.5 + 1 * 1.5"
  define x2 where "x2 = 3 * ((0.81 + 0.81 + 0.81 * s) / 3) * 0.5 + 1 * 1.5"
  have r1: "1 \<le> x1" "x1 \<le> 10" using b by (simp_all add: x1_def field_simps)
  have r2: "1 \<le> x2" "x2 \<le> 10" using b by (simp_all add: x2_def field_simps)
  have lt: "x2 < x1" using b by (simp add: x1_def x2_def field_simps)
  have "min 10 (max 1 x1) = x1" using r1 by simp
  moreover have "min 10 (max 1 x2) = x2" using r2 by simp
  ultimately have "min 10 (max 1 x1) \<noteq> min 10 (max 1 x2)" using lt by simp
  then have "min 10 (max 1 (3 * ((0.81 + 0.81 + 0.81 * s + 0.81 * s) / 4) * 0.5 + 1 * 1.5))
      \<noteq> min 10 (max 1 (3 * ((0.81 + 0.81 + 0.81 * s) / 3) * 0.5 + 1 * 1.5))"
    unfolding x1_def x2_def .
  then have a: "estimate_installation_complexity loop_harness None
     \<noteq> Inr (min 10 (max 1 (3 * ((0.81 + 0.81 + 0.81 * sqrt 2) / 3) * 0.5 + 1 * 1.5)))"
    unfolding loop_harness_complexity s_def by simp
  have t: "calculate_total_length junctions_only = Inr 0"
    by (simp add: calculate_total_length_def junctions_only_facts)
  have c: "estimate_installation_complexity junctions_only None = Inr 3"
    by (simp add: estimate_installation_complexity_def truthy_def t junctions_only_hierarchical
        average_diameter_def junctions_only_facts py_clamp)
  have d: "analyzer_estimate_installation_complexity junctions_only None = Inr 1"
    by (simp add: analyzer_estimate_installation_complexity_def truthy_def t
        base_segment_diameters_def junctions_only_facts np_mean_def py_clamp_nan)
  show ?thesis using a c d by blast
qed

text \<open>
  Claim C4, as amended. On the sample harness of \<open>harness_analyzer.py\<close> (7 nodes, 6 edges)
  \<open>calculate_total_length\<close> returns 8.3 (within \<open>1e-9\<close>), and
  \<open>find_optimal_path('ECU', 'Actuator2')\<close> returns the nodes
  \<open>[ECU, Junction1, Junction2, Actuator2]\<close> with the weight \<open>0.5 + 2.0 + 2.1 = 4.6\<close>.
\<close>

theorem sample_harness_length_and_path:
  "(\<exists>total. calculate_total_length (load_sample_data nx_Graph) = Inr total
       \<and> \<bar>total - 8.3\<bar> \<le> 1 / 10 ^ 9) \<and>
   find_optimal_path (load_sample_data nx_Graph) ''ECU'' ''Actuator2''
     = Inr (Some [''ECU'', ''Junction1'', ''Junction2'', ''Actuator2''], Finite 4.6)"
proof
  have "calculate_total_length (load_sample_data nx_Graph) = Inr (83 / 10)" by code_simp
  then show "\<exists>total. calculate_total_length (load_sample_data nx_Graph) = Inr total
       \<and> \<bar>total - 8.3\<bar> \<le> 1 / 10 ^ 9" by (intro exI[of _ "83 / 10"]) simp
  have "find_optimal_path (load_sample_data nx_Graph) ''ECU'' ''Actuator2''
     = Inr (Some [''ECU'', ''Junction1'', ''Junction2'', ''Actuator2''], Finite (23 / 5))"
    by code_simp
  then show "find_optimal_path (load_sample_data nx_Graph) ''ECU'' ''Actuator2''
     = Inr (Some [''ECU'', ''Junction1'', ''Junction2'', ''Actuator2''], Finite 4.6)" by simp
qed

text \<open>The weight the claim states, 4.5, is not the weight the code returns.\<close>

theorem sample_path_weight_counterexample:
  "find_optimal_path (load_sample_data nx_Graph) ''ECU'' ''Actuator2''
     \<noteq> Inr (Some [''ECU'', ''Junction1'', ''Junction2'', ''Actuator2''], Finite 4.5)"
proof -
  have "find_optimal_path (load_sample_data nx_Graph) ''ECU'' ''Actuator2''
     = Inr (Some [''ECU'', ''Junction1'', ''Junction2'', ''Actuator2''], Finite (23 / 5))"
    by code_simp
  then show ?thesis by simp
qed

text \<open>
  Claim C5 (a defect of the code). \<open>find_optimal_path\<close> catches \<open>NetworkXNoPath\<close> only:
  for a source that is not a node of the graph the \<open>NodeNotFound\<close> of \<open>nx.dijkstra_path\<close>
  leaves the function as an exception, where the claim has the no-path result.
\<close>

theorem find_optimal_path_missing_source:
  "find_optimal_path (load_sample_data nx_Graph) ''Nowhere'' ''Actuator2'' = Inl NodeNotFound"
  by code_simp

text \<open>
  Claim C8 (a defect of the code). On the empty graph the functions of \<open>gui.py\<close> return
  their defaults (length 0, empty dictionaries, complexity 1, a complete report), and so
  do the length, the diameters and the complexity of \<open>harness_analyzer.py\<close>; but there
  the mean of the diameters is NaN and \<open>generate_report\<close> raises \<open>ValueError\<close>, from
  \<open>max\<close> of an empty sequence.
\<close>

theorem empty_graph_reports:
  "calculate_total_length nx_Graph = Inr 0 \<and>
   estimate_bundle_diameter nx_Graph None True = Inr (SegmentsAndUtilization [] []) \<and>
   estimate_installation_complexity nx_Graph None = Inr 1 \<and>
   generate_report nx_Graph True =
     Inr [(''Total Components'', 0), (''Total Connections'', 0), (''Number of Junctions'', 0),
          (''Total Wire Length (m)'', 0), (''Average Bundle Diameter (mm)'', 0),
          (''Maximum Bundle Diameter (mm)'', 0), (''Installation Complexity (1-10)'', 1),
          (''Average Space Utilization (%)'', 0), (''Minimum Space Utilization (%)'', 0)] \<and>
   analyzer_estimate_bundle_diameter nx_Graph None = Inr (Segments []) \<and>
   np_mean (map snd (base_segment_diameters nx_Graph)) = None \<and>
   analyzer_estimate_installation_complexity nx_Graph None = Inr 1 \<and>
   analyzer_generate_report nx_Graph = Inl ValueError"
  by (simp add: empty_graph_total_length empty_graph_hier empty_graph_complexity
      empty_graph_report empty_graph_base empty_graph_analyzer_complexity
      empty_graph_analyzer_report estimate_bundle_diameter_def
      analyzer_estimate_bundle_diameter_def truthy_def np_mean_def)

text \<open>
  Claim C10, as amended. Path mode of \<open>estimate_bundle_diameter\<close> is the mode of a path
  with at least one node (the same code in both files). A consecutive pair without an edge
  is skipped and adds no area, and is never what makes the call raise: when every edge that
  exists on the path has a gauge the call returns the diameter of the summed areas of the
  wires of the existing pairs, and a call that raises raises \<open>KeyError\<close> at an existing
  edge stored without a gauge. A path none of whose pairs is an edge, a one-node path among
  them, gives exactly 0. The result is the same whatever the signals of the edges are. An
  empty path is not handled in path mode: it gives what the call without a path gives.
\<close>

theorem path_mode_skips_missing_edges:
  "((\<forall>(u, v) \<in> set (path_pairs (n # ns)).
       has_edge g u v \<longrightarrow> (\<exists>d gg. get_edge g u v = Inr d \<and> gauge d = Some gg)) \<longrightarrow>
     estimate_bundle_diameter g (Some (n # ns)) ch
       = Inr (BundleDiameter (equivalent_diameter (sum_list
           (map (\<lambda>(u, v). circle_area (wire_diameter_of (the (gauge (projr (get_edge g u v))))))
              (filter (\<lambda>(u, v). has_edge g u v) (path_pairs (n # ns)))))))) \<and>
   (estimate_bundle_diameter g (Some (n # ns)) ch = Inl e \<longrightarrow>
      e = KeyError \<and>
      (\<exists>(u, v) \<in> set (path_pairs (n # ns)).
         has_edge g u v \<and> (\<exists>d. get_edge g u v = Inr d \<and> gauge d = None))) \<and>
   ((\<forall>(u, v) \<in> set (path_pairs (n # ns)). \<not> has_edge g u v) \<longrightarrow>
      estimate_bundle_diameter g (Some (n # ns)) ch = Inr (BundleDiameter 0)) \<and>
   estimate_bundle_diameter g (Some [n]) ch = Inr (BundleDiameter 0) \<and>
   estimate_bundle_diameter (with_signals f g) (Some (n # ns)) ch
     = estimate_bundle_diameter g (Some (n # ns)) ch \<and>
   analyzer_estimate_bundle_diameter g (Some (n # ns)) = estimate_bundle_diameter g (Some (n # ns)) ch \<and>
   estimate_bundle_diameter g (Some []) ch = estimate_bundle_diameter g None ch \<and>
   analyzer_estimate_bundle_diameter g (Some []) = analyzer_estimate_bundle_diameter g None"
proof (intro conjI impI)
  define p where "p = n # ns"
  have tp: "truthy (Some p)" by (simp add: truthy_def p_def)
  have est: "estimate_bundle_diameter g (Some p) ch
      = (case path_bundle_diameter g p of Inl e \<Rightarrow> Inl e | Inr d \<Rightarrow> Inr (BundleDiameter d))"
    using tp by (simp add: estimate_bundle_diameter_def)
  {
    assume h: "\<forall>(u, v) \<in> set (path_pairs (n # ns)).
       has_edge g u v \<longrightarrow> (\<exists>d gg. get_edge g u v = Inr d \<and> gauge d = Some gg)"
    have "path_diameters g (path_pairs (n # ns))
        = Inr (map (\<lambda>(u, v). wire_diameter_of (the (gauge (projr (get_edge g u v)))))
                 (filter (\<lambda>(u, v). has_edge g u v) (path_pairs (n # ns))))"
      by (rule path_diameters_explicit[OF h])
    then have "path_bundle_diameter g (n # ns)
        = Inr (equivalent_diameter (sum_list
           (map (\<lambda>(u, v). circle_area (wire_diameter_of (the (gauge (projr (get_edge g u v))))))
              (filter (\<lambda>(u, v). has_edge g u v) (path_pairs (n # ns))))))"
      by (simp add: path_bundle_diameter_def comp_def case_prod_unfold)
    then show "estimate_bundle_diameter g (Some (n # ns)) ch
       = Inr (BundleDiameter (equivalent_diameter (sum_list
           (map (\<lambda>(u, v). circle_area (wire_diameter_of (the (gauge (projr (get_edge g u v))))))
              (filter (\<lambda>(u, v). has_edge g u v) (path_pairs (n # ns)))))))"
      using est by (simp add: p_def)
  }
  {
    assume r: "estimate_bundle_diameter g (Some (n # ns)) ch = Inl e"
    then have "path_bundle_diameter g (n # ns) = Inl e"
      using est by (simp add: p_def split: sum.splits)
    then have pd: "path_diameters g (path_pairs (n # ns)) = Inl e"
      by (simp add: path_bundle_diameter_def Let_def split: sum.splits)
    from path_diameters_raises[OF pd]
    show "e = KeyError"
      and "\<exists>(u, v) \<in> set (path_pairs (n # ns)).
         has_edge g u v \<and> (\<exists>d. get_edge g u v = Inr d \<and> gauge d = None)"
      by simp_all
  }
  {
    assume h: "\<forall>(u, v) \<in> set (path_pairs (n # ns)). \<not> has_edge g u v"
    have "path_diameters g (path_pairs (n # ns)) = Inr []"
      by (rule path_diameters_no_edges[OF h])
    then have "path_bundle_diameter g (n # ns) = Inr 0"
      by (simp add: path_bundle_diameter_def equivalent_diameter_0)
    then show "estimate_bundle_diameter g (Some (n # ns)) ch = Inr (BundleDiameter 0)"
      using est by (simp add: p_def)
  }
  show "estimate_bundle_diameter g (Some [n]) ch = Inr (BundleDiameter 0)"
    by (simp add: estimate_bundle_diameter_def truthy_def path_bundle_diameter_def path_pairs_def
        equivalent_diameter_0)
  show "estimate_bundle_diameter (with_signals f g) (Some (n # ns)) ch
           = estimate_bundle_diameter g (Some (n # ns)) ch"
    by (simp add: estimate_bundle_diameter_def truthy_def path_bundle_diameter_def
        with_signals_path_diameters)
  show "analyzer_estimate_bundle_diameter g (Some (n # ns)) = estimate_bundle_diameter g (Some (n # ns)) ch"
    by (simp add: estimate_bundle_diameter_def analyzer_estimate_bundle_diameter_def truthy_def)
  show "estimate_bundle_diameter g (Some []) ch = estimate_bundle_diameter g None ch"
    by (simp add: estimate_bundle_diameter_def truthy_def)
  show "analyzer_estimate_bundle_diameter g (Some []) = analyzer_estimate_bundle_diameter g None"
    by (simp add: analyzer_estimate_bundle_diameter_def truthy_def)
qed

theorem path_mode_skips_missing_edges_witness:
  "\<not> has_edge (load_sample_data nx_Graph) ''ECU'' ''Sensor1'' \<and>
   estimate_bundle_diameter (load_sample_data nx_Graph) (Some [''ECU'', ''Sensor1'', ''Junction1'']) True
     = Inr (BundleDiameter 0.64) \<and>
   estimate_bundle_diameter (load_sample_data nx_Graph) (Some [''ECU'', ''Sensor1'']) True
     = Inr (BundleDiameter 0) \<and>
   estimate_bundle_diameter ungauged_harness (Some [''A'', ''B'']) True = Inl KeyError \<and>
   (\<exists>(u, v) \<in> set (path_pairs [''A'', ''B'']).
      has_edge ungauged_harness u v \<and> (\<exists>d. get_edge ungauged_harness u v = Inr d \<and> gauge d = None))"
proof -
  let ?g = "load_sample_data nx_Graph"
  have h: "\<forall>(u, v) \<in> set (path_pairs [''ECU'', ''Sensor1'', ''Junction1'']).
            has_edge ?g u v \<longrightarrow> (\<exists>d gg. get_edge ?g u v = Inr d \<and> gauge d = Some gg)"
    by (simp add: sample_gap_path_pairs sample_gap_edges edge_data_def)
  have f: "filter (\<lambda>(u, v). has_edge ?g u v) (path_pairs [''ECU'', ''Sensor1'', ''Junction1''])
      = [(''Sensor1'', ''Junction1'')]"
    by (simp add: sample_gap_path_pairs sample_gap_edges(1,2))
  have w: "wire_diameter_of 22 = 0.64" by (simp add: wire_diameter_of_def gauge_to_diameter_def)
  from path_mode_skips_missing_edges[of "''ECU''" "[''Sensor1'', ''Junction1'']" ?g True] h
  have "estimate_bundle_diameter ?g (Some [''ECU'', ''Sensor1'', ''Junction1'']) True
       = Inr (BundleDiameter (equivalent_diameter (sum_list
           (map (\<lambda>(u, v). circle_area (wire_diameter_of (the (gauge (projr (get_edge ?g u v))))))
              (filter (\<lambda>(u, v). has_edge ?g u v) (path_pairs [''ECU'', ''Sensor1'', ''Junction1'']))))))"
    by blast
  then have a: "estimate_bundle_diameter ?g (Some [''ECU'', ''Sensor1'', ''Junction1'']) True
     = Inr (BundleDiameter 0.64)"
    unfolding f by (simp add: sample_gap_edges(3) edge_data_def w equivalent_diameter_circle_area)
  have h2: "\<forall>(u, v) \<in> set (path_pairs [''ECU'', ''Sensor1'']). \<not> has_edge ?g u v"
    by (simp add: path_pairs_def sample_gap_edges)
  have b: "estimate_bundle_diameter ?g (Some [''ECU'', ''Sensor1'']) True = Inr (BundleDiameter 0)"
    using path_mode_skips_missing_edges[of "''ECU''" "[''Sensor1'']" ?g True] h2 by blast
  have r: "estimate_bundle_diameter ungauged_harness (Some [''A'', ''B'']) True = Inl KeyError"
    by (simp add: estimate_bundle_diameter_def truthy_def path_bundle_diameter_def
        ungauged_harness_facts)
  have c: "\<exists>(u, v) \<in> set (path_pairs [''A'', ''B'']).
      has_edge ungauged_harness u v \<and> (\<exists>d. get_edge ungauged_harness u v = Inr d \<and> gauge d = None)"
    using path_mode_skips_missing_edges[of "''A''" "[''B'']" ungauged_harness True KeyError] r
    by blast
  show ?thesis using sample_gap_edges(1) a b r c by blast
qed

text \<open>
  The claim as it was stated fails on the empty path and on a wire without a gauge. With an
  empty path the call on the harness with a cycle returns the two dictionaries of the whole
  graph, and the call of \<open>harness_analyzer.py\<close> the dictionary of its segments, not the
  diameter 0. On the path over the one wire that has no gauge the call raises \<open>KeyError\<close>.
\<close>

theorem path_mode_counterexample:
  "estimate_bundle_diameter loop_harness (Some []) True
     = Inr (SegmentsAndUtilization
         [((''A'', ''J''), 0.81), ((''A'', ''B''), 0.81), ((''J'', ''B''), 0.81 * sqrt 2),
          ((''B'', ''J''), 0.81 * sqrt 2)]
         [((''B'', ''J''), 50), ((''J'', ''B''), 50)]) \<and>
   estimate_bundle_diameter loop_harness (Some []) True \<noteq> Inr (BundleDiameter 0) \<and>
   analyzer_estimate_bundle_diameter loop_harness (Some [])
     = Inr (Segments [((''A'', ''J''), 0.81), ((''A'', ''B''), 0.81), ((''J'', ''B''), 0.81)]) \<and>
   analyzer_estimate_bundle_diameter loop_harness (Some []) \<noteq> Inr (BundleDiameter 0) \<and>
   estimate_bundle_diameter ungauged_harness (Some [''A'', ''B'']) True = Inl KeyError \<and>
   analyzer_estimate_bundle_diameter ungauged_harness (Some [''A'', ''B'']) = Inl KeyError"
  by (simp add: estimate_bundle_diameter_def analyzer_estimate_bundle_diameter_def truthy_def
      loop_harness_hierarchical loop_harness_base path_bundle_diameter_def ungauged_harness_facts)

text \<open>
  Claim C6. \<open>get_downstream_edges\<close> is a total function (its recursion is proved to
  terminate on every graph, cyclic or not) and returns for every node of the graph. Each
  call of the nested \<open>dfs\<close> but the first directly follows the append of an edge to the
  node it enters, so the nodes entered are the root and the second components of the
  returned edges: they are pairwise different (\<open>visited\<close> is shared by the whole
  traversal), no edge is returned twice, the reverse of a returned edge is never returned,
  each edge leaves the root or a node entered before, and the number of edges is the number
  of nodes reachable from the root minus one (on every graph, a tree among them).
\<close>

theorem downstream_edges_no_revisit:
  assumes "in_graph g rt"
  shows "\<exists>es. get_downstream_edges g rt = Inr es \<and>
           distinct (rt # map snd es) \<and> distinct es \<and>
           (\<forall>(u, v) \<in> set es. (v, u) \<notin> set es) \<and>
           discovery_order {rt} es \<and> set es \<subseteq> nbr_rel g \<and>
           Suc (length es) = card (reachable g rt)"
proof -
  let ?es = "dfs_edges g rt"
  have r: "get_downstream_edges g rt = Inr ?es"
    using assms by (simp add: get_downstream_edges_def in_graph_def)
  have o: "discovery_order {rt} ?es" by (rule dfs_edges_spec(1))
  have t: "distinct (map snd ?es)" "snd ` set ?es \<inter> {rt} = {}"
    using discovery_order_targets[OF o] by auto
  have d1: "distinct (rt # map snd ?es)" using t by auto
  have d2: "distinct ?es" using t(1) by (rule distinct_map[THEN iffD1, THEN conjunct1])
  have nb: "\<forall>(u, v) \<in> set ?es. (v, u) \<notin> set ?es"
    using discovery_order_no_back_edge[OF o] by auto
  have fin: "finite (reachable g rt)"
    unfolding dfs_edges_spec(3)[symmetric] by simp
  have "rt \<in> reachable g rt" by (simp add: reachable_def)
  then have "card (reachable g rt) \<noteq> 0" using fin by auto
  then have len: "Suc (length ?es) = card (reachable g rt)"
    using length_dfs_edges[of g rt] by simp
  show ?thesis using r d1 d2 nb o dfs_edges_spec(2)[of g rt] len by blast
qed

theorem downstream_edges_no_revisit_witness:
  "in_graph loop_harness ''J'' \<and>
   get_downstream_edges loop_harness ''J'' = Inr [(''J'', ''A''), (''A'', ''B'')] \<and>
   distinct [''J'', ''A'', ''B''] \<and>
   card (reachable loop_harness ''J'') = 3"
  using downstream_edges_no_revisit[OF loop_harness_facts(1)] loop_harness_facts(1,2)
  by auto

text \<open>
  Claim C9. On the graphs \<open>networkx\<close> can hold, the edges returned for a node \<open>n\<close> span
  the whole connected component of \<open>n\<close>; every node of that component has the same number
  of downstream edges, and the junctions of the component keep their order under the
  sort by that number. On a connected graph the number is the number of nodes minus one for
  every node and the sorted list of junctions is the list itself.
\<close>

theorem downstream_edges_span_component:
  assumes "wf_graph g" "n \<in> set (nodes g)"
  shows "get_downstream_edges g n = Inr (dfs_edges g n) \<and>
         insert n (snd ` set (dfs_edges g n)) = reachable g n \<and>
         set (dfs_edges g n) \<subseteq> nbr_rel g \<and>
         (\<forall>m. (n, m) \<in> (nbr_rel g)\<^sup>* \<longrightarrow> length (dfs_edges g m) = length (dfs_edges g n)) \<and>
         filter (\<lambda>j. j \<in> reachable g n) (sorted_junctions g)
           = filter (\<lambda>j. j \<in> reachable g n) (junction_nodes g) \<and>
         (connected g \<longrightarrow>
            Suc (length (dfs_edges g n)) = number_of_nodes g \<and>
            (\<forall>m \<in> set (nodes g). length (dfs_edges g m) = length (dfs_edges g n)) \<and>
            sorted_junctions g = junction_nodes g)"
proof (intro conjI allI impI ballI)
  show "get_downstream_edges g n = Inr (dfs_edges g n)"
    using wf_in_graph[OF assms] by (simp add: get_downstream_edges_def in_graph_def)
  show "insert n (snd ` set (dfs_edges g n)) = reachable g n" by (rule dfs_edges_spec(3))
  show "set (dfs_edges g n) \<subseteq> nbr_rel g" by (rule dfs_edges_spec(2))
  show same: "length (dfs_edges g m) = length (dfs_edges g n)" if "(n, m) \<in> (nbr_rel g)\<^sup>*" for m
    using reachable_same_component[OF assms(1) that] by (simp add: length_dfs_edges)
  have key: "\<forall>j \<in> set (junction_nodes g). j \<in> reachable g n
      \<longrightarrow> length (dfs_edges g j) = length (dfs_edges g n)"
  proof (intro ballI impI)
    fix j assume "j \<in> reachable g n"
    then have "(n, j) \<in> (nbr_rel g)\<^sup>*" by (simp add: reachable_def)
    then show "length (dfs_edges g j) = length (dfs_edges g n)" by (rule same)
  qed
  show flt: "filter (\<lambda>j. j \<in> reachable g n) (sorted_junctions g)
           = filter (\<lambda>j. j \<in> reachable g n) (junction_nodes g)"
    unfolding sorted_junctions_def by (rule sort_key_same_key[OF key])
  {
    assume c: "connected g"
    have R: "reachable g n = set (nodes g)" by (rule connected_reachable[OF assms(1) c assms(2)])
    have "distinct (nodes g)" using assms(1) by (simp add: wf_graph_def nodes_def)
    then have "card (set (nodes g)) = length (nodes g)" by (rule distinct_card)
    then have "card (set (nodes g)) = number_of_nodes g"
      by (simp add: nodes_def number_of_nodes_def)
    then have cr: "card (reachable g n) = number_of_nodes g" by (simp only: R)
    have "nodes g \<noteq> []" using assms(2) by auto
    then have "number_of_nodes g \<noteq> 0" by (simp add: nodes_def number_of_nodes_def)
    then show "Suc (length (dfs_edges g n)) = number_of_nodes g"
      using length_dfs_edges[of g n] cr by simp
    show "length (dfs_edges g m) = length (dfs_edges g n)" if "m \<in> set (nodes g)" for m
    proof -
      have "(n, m) \<in> (nbr_rel g)\<^sup>*" using c assms(2) that unfolding connected_def by blast
      then show ?thesis by (rule same)
    qed
    have "set (junction_nodes g) \<subseteq> set (nodes g)"
      unfolding junction_nodes_def nodes_def by auto
    then have js: "\<forall>j \<in> set (junction_nodes g). j \<in> reachable g n" unfolding R by blast
    then have js2: "\<forall>j \<in> set (sorted_junctions g). j \<in> reachable g n"
      by (simp add: sorted_junctions_def)
    have a: "filter (\<lambda>j. j \<in> reachable g n) (sorted_junctions g) = sorted_junctions g"
      using js2 by (rule filter_True)
    have b: "filter (\<lambda>j. j \<in> reachable g n) (junction_nodes g) = junction_nodes g"
      using js by (rule filter_True)
    have "sorted_junctions g = filter (\<lambda>j. j \<in> reachable g n) (sorted_junctions g)"
      by (rule a[symmetric])
    also have "\<dots> = filter (\<lambda>j. j \<in> reachable g n) (junction_nodes g)" by (rule flt)
    also have "\<dots> = junction_nodes g" by (rule b)
    finally show "sorted_junctions g = junction_nodes g" .
  }
qed

theorem downstream_edges_span_component_witness:
  "wf_graph loop_harness \<and> ''J'' \<in> set (nodes loop_harness) \<and> connected loop_harness \<and>
   (''J'', ''B'') \<in> (nbr_rel loop_harness)\<^sup>* \<and>
   length (dfs_edges loop_harness ''B'') = length (dfs_edges loop_harness ''J'') \<and>
   Suc (length (dfs_edges loop_harness ''J'')) = 3 \<and>
   sorted_junctions loop_harness = [''J'']"
proof -
  have n: "''J'' \<in> set (nodes loop_harness)" by (simp add: loop_harness_facts)
  have r: "(''J'', ''B'') \<in> (nbr_rel loop_harness)\<^sup>*"
    using loop_harness_connected by (simp add: connected_def loop_harness_facts)
  from downstream_edges_span_component[OF loop_harness_facts(3) n] loop_harness_connected r
  show ?thesis using n loop_harness_facts(3,8,9) by auto
qed

text \<open>
  Claim C1. In the hierarchical mode, the area added at a junction is meant to be the sum
  of the areas of all the edges downstream of it. The loop over \<open>downstream_edges\<close> tests
  \<open>(u, v) in segment_diameters\<close> for the pair as the traversal returns it, parent first,
  while the dictionary holds an edge under the pair \<open>edges()\<close> gave, so a downstream edge
  keyed the other way round adds nothing. On the harness with a cycle the edges downstream
  of \<open>J\<close> are \<open>(J, A)\<close> and \<open>(A, B)\<close>, both of diameter 0.81; \<open>(J, A)\<close> is stored as
  \<open>(A, J)\<close> and is left out, so the edge between \<open>B\<close> and \<open>J\<close> receives the area of one
  wire, not of two, and its new area is twice, not three times, that of a wire. The new
  diameter is stored under both \<open>(J, B)\<close> and \<open>(B, J)\<close>.
\<close>

theorem downstream_area_skips_reversed_keys:
  "get_downstream_edges loop_harness ''J'' = Inr [(''J'', ''A''), (''A'', ''B'')] \<and>
   base_segment_diameters loop_harness
     = [((''A'', ''J''), 0.81), ((''A'', ''B''), 0.81), ((''J'', ''B''), 0.81)] \<and>
   map (current_diameter (base_segment_diameters loop_harness)) [(''J'', ''A''), (''A'', ''B'')]
     = [0.81, 0.81] \<and>
   total_downstream_area (base_segment_diameters loop_harness) [(''J'', ''A''), (''A'', ''B'')]
     = circle_area 0.81 \<and>
   circle_area 0.81 < circle_area 0.81 + circle_area 0.81 \<and>
   estimate_bundle_diameter loop_harness None True =
     Inr (SegmentsAndUtilization
       [((''A'', ''J''), 0.81), ((''A'', ''B''), 0.81), ((''J'', ''B''), 0.81 * sqrt 2),
        ((''B'', ''J''), 0.81 * sqrt 2)]
       [((''B'', ''J''), 50), ((''J'', ''B''), 50)]) \<and>
   circle_area (0.81 * sqrt 2) = circle_area 0.81 + circle_area 0.81 \<and>
   circle_area (0.81 * sqrt 2) \<noteq> circle_area 0.81 + (circle_area 0.81 + circle_area 0.81)"
proof -
  have pos: "0 < circle_area (81 / 100)" by (rule circle_area_pos) simp
  have a: "map (current_diameter (base_segment_diameters loop_harness)) [(''J'', ''A''), (''A'', ''B'')]
     = [0.81, 0.81]"
    by (simp add: loop_harness_base current_diameter_def)
  have b: "total_downstream_area (base_segment_diameters loop_harness) [(''J'', ''A''), (''A'', ''B'')]
     = circle_area 0.81"
    using loop_harness_downstream_area by (simp add: loop_harness_edges_data)
  have c: "circle_area (0.81 * sqrt 2) = circle_area 0.81 + circle_area 0.81"
    by (simp add: circle_area_def power_mult_distrib power_divide)
  have d: "circle_area (0.81 * sqrt 2) \<noteq> circle_area 0.81 + (circle_area 0.81 + circle_area 0.81)"
    unfolding c using pos by simp
  have e: "estimate_bundle_diameter loop_harness None True =
     Inr (SegmentsAndUtilization
       [((''A'', ''J''), 0.81), ((''A'', ''B''), 0.81), ((''J'', ''B''), 0.81 * sqrt 2),
        ((''B'', ''J''), 0.81 * sqrt 2)]
       [((''B'', ''J''), 50), ((''J'', ''B''), 50)])"
    by (simp add: estimate_hierarchical loop_harness_hierarchical)
  have f: "circle_area 0.81 < circle_area 0.81 + circle_area 0.81" using pos by simp
  show ?thesis
    using a b c d e f loop_harness_facts(2) loop_harness_base by blast
qed






end
